theory Spec2Isabelle
  imports Main "HOL-Library.Sublist"
begin

unbundle bit_operations_syntax

section \<open>Bytes, slices and the Go library functions the proxy calls\<close>

text \<open>
  A Go \<^verbatim>\<open>byte\<close> is an 8-bit value and a Go \<^verbatim>\<open>string\<close> is a sequence of bytes, which is
  what \<^typ>\<open>char\<close> and \<^typ>\<open>string\<close> are in HOL. \<^verbatim>\<open>[]byte\<close> and \<^verbatim>\<open>string\<close> are
  both modelled as \<^typ>\<open>string\<close>, so the conversion \<^verbatim>\<open>string(b)\<close> is the identity.
  The numeric value of a byte is \<open>of_char\<close>. Lengths and positions are \<^typ>\<open>nat\<close>:
  every \<^verbatim>\<open>int\<close> of the source that holds one is non-negative and far below \<open>2^63\<close>.
\<close>

type_synonym byte = char

text \<open>
  Indexing \<^verbatim>\<open>s[i]\<close> and slicing \<^verbatim>\<open>s[lo:hi]\<close>. Go panics when the index is out of
  range; the panic is the value \<open>None\<close>. Go lets \<open>hi\<close> of a slice expression run up to the
  capacity of a byte slice; the bound used here is the length, which is never larger, so
  an expression that is in range here is in range in Go.
\<close>

definition byte_at :: "string \<Rightarrow> nat \<Rightarrow> byte option" where
  "byte_at s i = (if i < length s then Some (s ! i) else None)"

definition slice :: "string \<Rightarrow> nat \<Rightarrow> nat \<Rightarrow> string option" where
  "slice s lo hi = (if lo \<le> hi \<and> hi \<le> length s then Some (take (hi - lo) (drop lo s)) else None)"

text \<open>\<^verbatim>\<open>strings.Contains(s, substr)\<close>: \<open>substr\<close> occurs in \<open>s\<close> as a contiguous run.\<close>

fun strings_Contains :: "string \<Rightarrow> string \<Rightarrow> bool" where
  "strings_Contains [] substr = (substr = [])"
| "strings_Contains (c # s) substr = (prefix substr (c # s) \<or> strings_Contains s substr)"

subsection \<open>Case mapping: \<^verbatim>\<open>strings.ToUpper\<close> and \<^verbatim>\<open>strings.ToLower\<close>\<close>

text \<open>
  Both functions have a fast path for text whose bytes are all below \<open>0x80\<close>: the
  ASCII letters are mapped bytewise. Any other text is decoded as UTF-8 rune by rune
  (an invalid byte decodes to the replacement rune \<open>U+FFFD\<close> of width 1), each rune is
  mapped by \<^verbatim>\<open>unicode.ToUpper\<close> or \<^verbatim>\<open>unicode.ToLower\<close>, and the result is encoded again
  (\<^verbatim>\<open>strings.Map\<close>). The Unicode case tables, consulted for the runes above \<open>0x7F\<close>
  only, are not part of the program: they are the parameter \<open>CaseTables\<close>.
\<close>

record CaseTables =
  UpperCase :: "nat \<Rightarrow> nat"
  LowerCase :: "nat \<Rightarrow> nat"

definition RuneError :: nat where
  "RuneError = 0xFFFD"

definition RuneSelf :: nat where
  "RuneSelf = 0x80"

definition between :: "nat \<Rightarrow> nat \<Rightarrow> byte \<Rightarrow> bool" where
  "between lo hi b = (lo \<le> of_char b \<and> of_char b \<le> hi)"

text \<open>The range accepted for the second byte of a sequence that starts with byte \<open>x\<close>.\<close>

definition second_lo :: "nat \<Rightarrow> nat" where
  "second_lo x = (if x = 0xE0 then 0xA0 else if x = 0xF0 then 0x90 else 0x80)"

definition second_hi :: "nat \<Rightarrow> nat" where
  "second_hi x = (if x = 0xED then 0x9F else if x = 0xF4 then 0x8F else 0xBF)"

text \<open>\<^verbatim>\<open>utf8.DecodeRuneInString\<close>: the first rune of \<open>s\<close> and its width in bytes.\<close>

definition utf8_DecodeRune :: "string \<Rightarrow> nat \<times> nat" where
  "utf8_DecodeRune s =
     (case s of
        [] \<Rightarrow> (RuneError, 0)
      | b0 # t \<Rightarrow>
          (let x = of_char b0 in
           if x < RuneSelf then (x, 1)
           else if x < 0xC2 \<or> 0xF4 < x then (RuneError, 1)
           else if x < 0xE0 then
             (case t of
                b1 # _ \<Rightarrow>
                  if between 0x80 0xBF b1 then ((x mod 32) * 64 + of_char b1 mod 64, 2)
                  else (RuneError, 1)
              | _ \<Rightarrow> (RuneError, 1))
           else if x < 0xF0 then
             (case t of
                b1 # b2 # _ \<Rightarrow>
                  if between (second_lo x) (second_hi x) b1 \<and> between 0x80 0xBF b2
                  then ((x mod 16) * 4096 + (of_char b1 mod 64) * 64 + of_char b2 mod 64, 3)
                  else (RuneError, 1)
              | _ \<Rightarrow> (RuneError, 1))
           else
             (case t of
                b1 # b2 # b3 # _ \<Rightarrow>
                  if between (second_lo x) (second_hi x) b1 \<and> between 0x80 0xBF b2
                     \<and> between 0x80 0xBF b3
                  then ((x mod 8) * 262144 + (of_char b1 mod 64) * 4096
                          + (of_char b2 mod 64) * 64 + of_char b3 mod 64, 4)
                  else (RuneError, 1)
              | _ \<Rightarrow> (RuneError, 1))))"

text \<open>\<^verbatim>\<open>utf8.AppendRune\<close>: the UTF-8 encoding of a rune; a surrogate or a value above
  \<open>U+10FFFF\<close> is encoded as \<open>U+FFFD\<close>.\<close>

definition utf8_EncodeRune :: "nat \<Rightarrow> string" where
  "utf8_EncodeRune r =
     (if r < 0x80 then [char_of r]
      else if r < 0x800 then [char_of (0xC0 + r div 64), char_of (0x80 + r mod 64)]
      else if 0x10FFFF < r \<or> (0xD800 \<le> r \<and> r \<le> 0xDFFF) then [CHR 0xEF, CHR 0xBF, CHR 0xBD]
      else if r < 0x10000 then
        [char_of (0xE0 + r div 4096), char_of (0x80 + (r div 64) mod 64), char_of (0x80 + r mod 64)]
      else
        [char_of (0xF0 + r div 262144), char_of (0x80 + (r div 4096) mod 64),
         char_of (0x80 + (r div 64) mod 64), char_of (0x80 + r mod 64)])"

text \<open>\<^verbatim>\<open>strings.Map(mapping, s)\<close> for a mapping that never returns a negative rune: every
  rune of \<open>s\<close> is replaced by the encoding of its image.\<close>

function strings_Map :: "(nat \<Rightarrow> nat) \<Rightarrow> string \<Rightarrow> string" where
  "strings_Map mapping s =
     (if s = [] then []
      else utf8_EncodeRune (mapping (fst (utf8_DecodeRune s)))
             @ strings_Map mapping (drop (snd (utf8_DecodeRune s)) s))"
  by pat_completeness auto
termination
  by (relation "measure (\<lambda>(mapping, s). length s)") (auto simp: utf8_DecodeRune_def Let_def split: list.splits)

declare strings_Map.simps [simp del]

definition unicode_ToUpper :: "CaseTables \<Rightarrow> nat \<Rightarrow> nat" where
  "unicode_ToUpper U r =
     (if r \<le> 0x7F then (if 0x61 \<le> r \<and> r \<le> 0x7A then r - 0x20 else r)
      else UpperCase U r)"

definition unicode_ToLower :: "CaseTables \<Rightarrow> nat \<Rightarrow> nat" where
  "unicode_ToLower U r =
     (if r \<le> 0x7F then (if 0x41 \<le> r \<and> r \<le> 0x5A then r + 0x20 else r)
      else LowerCase U r)"

definition isASCII :: "byte \<Rightarrow> bool" where
  "isASCII c = (of_char c < RuneSelf)"

definition upper_byte :: "byte \<Rightarrow> byte" where
  "upper_byte c = (if between 0x61 0x7A c then char_of (of_char c - (0x20 :: nat)) else c)"

definition lower_byte :: "byte \<Rightarrow> byte" where
  "lower_byte c = (if between 0x41 0x5A c then char_of (of_char c + (0x20 :: nat)) else c)"

definition strings_ToUpper :: "CaseTables \<Rightarrow> string \<Rightarrow> string" where
  "strings_ToUpper U s =
     (if list_all isASCII s then map upper_byte s else strings_Map (unicode_ToUpper U) s)"

definition strings_ToLower :: "CaseTables \<Rightarrow> string \<Rightarrow> string" where
  "strings_ToLower U s =
     (if list_all isASCII s then map lower_byte s else strings_Map (unicode_ToLower U) s)"

section \<open>Packets\<close>

record MySQLPacket =
  Length :: int
  SequenceID :: int
  Payload :: string
  FullPacket :: string

section \<open>The handshake field extractor: \<^verbatim>\<open>parseDatabaseName\<close>\<close>

text \<open>
  The three scanning loops of \<^verbatim>\<open>parseDatabaseName\<close> have the same shape,
  \<^verbatim>\<open>for p < len(payload) && payload[p] != 0 { p++ }\<close>; \<open>scan_nul\<close> is that loop and
  returns the final \<open>p\<close>.
\<close>

function scan_nul :: "string \<Rightarrow> nat \<Rightarrow> nat option" where
  "scan_nul payload p =
     (if p < length payload then
        (case byte_at payload p of
           None \<Rightarrow> None
         | Some b \<Rightarrow> if b \<noteq> CHR 0x00 then scan_nul payload (p + 1) else Some p)
      else Some p)"
  by pat_completeness auto
termination
  by (relation "measure (\<lambda>(payload, p). length payload - p)") auto

declare scan_nul.simps [simp del]

definition is_auth_method :: "string \<Rightarrow> bool" where
  "is_auth_method nextField =
     (nextField = ''mysql_native_password'' \<or> nextField = ''caching_sha2_password''
        \<or> nextField = ''sha256_password'')"

text \<open>The test both branches apply to a candidate before returning it.\<close>

definition looks_like_database :: "string \<Rightarrow> bool" where
  "looks_like_database name =
     (0 < length name \<and> \<not> strings_Contains name ''_client_''
        \<and> \<not> strings_Contains name [CHR 0x0C])"

text \<open>
  \<^verbatim>\<open>parseDatabaseName\<close>, statement by statement. The arguments of the debug log calls
  are evaluated whatever the log level, so the slices they take are kept. The result
  \<open>None\<close> is a run-time panic; \<open>Some ''''\<close> is the empty string of the source.
\<close>

definition parse_after_auth :: "string \<Rightarrow> nat \<Rightarrow> string option" where
  "parse_after_auth payload nextEnd =
     (let pos = nextEnd + 1 in
      if pos \<ge> length payload then Some ''''
      else
        (let dbStart = pos in
         case scan_nul payload dbStart of
           None \<Rightarrow> None
         | Some dbEnd \<Rightarrow>
             if dbEnd > dbStart then
               (case slice payload dbStart dbEnd of
                  None \<Rightarrow> None
                | Some databaseName \<Rightarrow>
                    if looks_like_database databaseName then Some databaseName else Some '''')
             else Some ''''))"

definition parse_trailing :: "string \<Rightarrow> nat \<Rightarrow> string option" where
  "parse_trailing payload pos =
     (let nextStart = pos in
      case scan_nul payload nextStart of
        None \<Rightarrow> None
      | Some nextEnd \<Rightarrow>
          if nextEnd > nextStart then
            (case slice payload nextStart nextEnd of
               None \<Rightarrow> None
             | Some nextField \<Rightarrow>
                 if is_auth_method nextField then parse_after_auth payload nextEnd
                 else if looks_like_database nextField then Some nextField
                 else Some '''')
          else Some '''')"

text \<open>The block \<^verbatim>\<open>if pos < len(packet.Payload) { ... }\<close> that skips the length-prefixed
  password; it returns the new \<open>pos\<close>.\<close>

definition skip_password :: "string \<Rightarrow> nat \<Rightarrow> nat option" where
  "skip_password payload pos =
     (if pos < length payload then
        (case byte_at payload pos of
           None \<Rightarrow> None
         | Some b \<Rightarrow>
             (let passwordLen = of_char b;
                  pos = pos + 1;
                  pos = pos + passwordLen
              in Some pos))
      else Some pos)"

definition parseDatabaseName :: "MySQLPacket \<Rightarrow> string option" where
  "parseDatabaseName packet =
     (let payload = Payload packet in
      if length payload < 32 then Some ''''
      else
        (case slice payload 0 (min 64 (length payload)) of
           None \<Rightarrow> None
         | Some payload_hex \<Rightarrow>
        (let usernameStart = 32 in
         case scan_nul payload usernameStart of
           None \<Rightarrow> None
         | Some pos \<Rightarrow>
        (case slice payload usernameStart pos of
           None \<Rightarrow> None
         | Some username \<Rightarrow>
        (let pos = pos + 1 in
         if pos \<ge> length payload then Some ''''
         else
           (case skip_password payload pos of
              None \<Rightarrow> None
            | Some pos \<Rightarrow>
                if pos \<ge> length payload then Some ''''
                else if pos \<ge> length payload then Some ''''
                else parse_trailing payload pos))))))"

text \<open>
  The extractor in the words of the specification (section 4.2, steps 1 to 8), as a
  function of the payload: the empty string stands for "no schema name". \<open>until_nul\<close> is
  the text up to the next zero byte or the end of the frame.
\<close>

definition until_nul :: "string \<Rightarrow> string" where
  "until_nul bs = takeWhile (\<lambda>b. b \<noteq> CHR 0x00) bs"

definition known_auth_methods :: "string list" where
  "known_auth_methods = [''mysql_native_password'', ''caching_sha2_password'', ''sha256_password'']"

definition accepted_schema_name :: "string \<Rightarrow> bool" where
  "accepted_schema_name candidate =
     (candidate \<noteq> '''' \<and> CHR 0x0C \<notin> set candidate \<and> \<not> sublist ''_client_'' candidate)"

definition spec_schema_name :: "string \<Rightarrow> string" where
  "spec_schema_name payload =
     (if length payload < 32 then ''''
      else
        (let after_fixed = drop 32 payload;
             username = until_nul after_fixed;
             after_username = drop (length username + 1) after_fixed
         in if after_username = [] then ''''
            else
              (let credential_length = of_char (hd after_username);
                   trailing = drop (1 + credential_length) after_username
               in if trailing = [] then ''''
                  else
                    (let field = until_nul trailing;
                         candidate =
                           (if field \<in> set known_auth_methods
                            then until_nul (drop (length field + 1) trailing)
                            else field)
                     in if accepted_schema_name candidate then candidate else ''''))))"

section \<open>The in-session command classifier\<close>

definition isUseCommand :: "CaseTables \<Rightarrow> string \<Rightarrow> bool option" where
  "isUseCommand U data =
     (if length data < 5 then Some False
      else
        (let commandStart = 4 in
         if commandStart + 4 \<le> length data then
           (case slice data commandStart (commandStart + 4) of
              None \<Rightarrow> None
            | Some command \<Rightarrow> Some (strings_ToUpper U command = ''USE ''))
         else Some False))"

text \<open>The loop of \<^verbatim>\<open>extractDatabaseFromUseCommand\<close>:
  \<^verbatim>\<open>for end < len(data) && data[end] != 0 && data[end] != ';' && data[end] != ' ' { end++ }\<close>.\<close>

function scan_name :: "string \<Rightarrow> nat \<Rightarrow> nat option" where
  "scan_name data e =
     (if e < length data then
        (case byte_at data e of
           None \<Rightarrow> None
         | Some b \<Rightarrow>
             if b \<noteq> CHR 0x00 \<and> b \<noteq> CHR '';'' \<and> b \<noteq> CHR '' '' then scan_name data (e + 1)
             else Some e)
      else Some e)"
  by pat_completeness auto
termination
  by (relation "measure (\<lambda>(data, e). length data - e)") auto

declare scan_name.simps [simp del]

definition extractDatabaseFromUseCommand :: "string \<Rightarrow> string option" where
  "extractDatabaseFromUseCommand data =
     (if length data < 8 then Some ''''
      else
        (let start = 8 in
         case scan_name data start of
           None \<Rightarrow> None
         | Some e \<Rightarrow> if e > start then slice data start e else Some ''''))"

section \<open>The provisioning gate\<close>

datatype validation_error = EmptyName | NotAllowed | InvalidCharacters

definition name_byte :: "byte \<Rightarrow> bool" where
  "name_byte c =
     (between 0x61 0x7A c \<or> between 0x41 0x5A c \<or> between 0x30 0x39 c
        \<or> c = CHR ''_'' \<or> c = CHR ''-'')"

text \<open>\<^verbatim>\<open>validPattern.MatchString\<close> for the pattern \<^verbatim>\<open>^[a-zA-Z0-9_-]+$\<close>: the whole text
  is one or more bytes of the class (in Go, \<^verbatim>\<open>$\<close> matches at the very end of the text
  only, and a byte above \<open>0x7F\<close> is never in an ASCII class).\<close>

definition validPattern_MatchString :: "string \<Rightarrow> bool" where
  "validPattern_MatchString s = (s \<noteq> [] \<and> list_all name_byte s)"

definition validateDatabaseName :: "CaseTables \<Rightarrow> string \<Rightarrow> validation_error option" where
  "validateDatabaseName U dbName =
     (if dbName = '''' then Some EmptyName
      else if strings_Contains (strings_ToLower U dbName) ''information_schema''
              \<or> strings_Contains (strings_ToLower U dbName) ''mysql''
              \<or> strings_Contains (strings_ToLower U dbName) ''performance_schema''
              \<or> strings_Contains (strings_ToLower U dbName) ''sys''
      then Some NotAllowed
      else if \<not> validPattern_MatchString dbName then Some InvalidCharacters
      else None)"

record Config =
  ProxyPort :: int
  MySQLHost :: string
  MySQLPort :: int
  MySQLUser :: string
  MySQLPassword :: string
  LogLevel :: string

definition defaultConfig :: Config where
  "defaultConfig = \<lparr>ProxyPort = 3308, MySQLHost = ''localhost'', MySQLPort = 3306,
                     MySQLUser = ''root'', MySQLPassword = ''test'', LogLevel = ''info''\<rparr>"

text \<open>
  The upstream server as the administrative connection sees it: which of the calls
  fail, which schemas exist, and a log of the calls made on it (oldest first). The
  connection string is kept as its four components.
\<close>

datatype admin_op =
    Open string string string int
  | PingContext
  | QueryRowContext string string
  | ExecContext string
  | Close

record upstream =
  open_fails :: bool
  ping_fails :: bool
  query_fails :: bool
  exec_fails :: bool
  schemata :: "string list"
  admin_ops :: "admin_op list"

definition admin_call :: "admin_op \<Rightarrow> upstream \<Rightarrow> upstream" where
  "admin_call op up = up\<lparr>admin_ops := admin_ops up @ [op]\<rparr>"

datatype gate_error =
    InvalidName validation_error
  | ConnectFailed
  | PingFailed
  | ExistsCheckFailed
  | CreateFailed

definition ensureDatabaseExists ::
  "CaseTables \<Rightarrow> Config \<Rightarrow> string \<Rightarrow> upstream \<Rightarrow> upstream \<times> gate_error option" where
  "ensureDatabaseExists U config dbName up =
     (case validateDatabaseName U dbName of
        Some err \<Rightarrow> (up, Some (InvalidName err))
      | None \<Rightarrow>
          (let up = admin_call (Open (MySQLUser config) (MySQLPassword config)
                                  (MySQLHost config) (MySQLPort config)) up
           in if open_fails up then (up, Some ConnectFailed)
              else
                (let up = admin_call PingContext up
                 in if ping_fails up then (admin_call Close up, Some PingFailed)
                    else
                      (let query = ''SELECT COUNT(*) FROM INFORMATION_SCHEMA.SCHEMATA WHERE SCHEMA_NAME = ?'';
                           up = admin_call (QueryRowContext query dbName) up
                       in if query_fails up then (admin_call Close up, Some ExistsCheckFailed)
                          else
                            (let exists = count_list (schemata up) dbName
                             in if exists = 0 then
                                  (let createQuery = ''CREATE DATABASE `'' @ dbName @ ''`'';
                                       up = admin_call (ExecContext createQuery) up
                                   in if exec_fails up then (admin_call Close up, Some CreateFailed)
                                      else (admin_call Close (up\<lparr>schemata := schemata up @ [dbName]\<rparr>),
                                            None))
                                else (admin_call Close up, None))))))"

section \<open>Connections\<close>

text \<open>
  One end of a TCP connection, as the proxy sees it. \<open>incoming\<close> is what
  the peer will still deliver, in the segments in which it arrives; when it is
  exhausted every read returns \<open>read_end\<close> (\<open>EOF\<close> when the peer closed, \<open>ErrTimeout\<close>
  when the deadline passes first). \<open>written\<close> is the log of the writes made on the
  connection, oldest first, one entry per call of \<^verbatim>\<open>Write\<close>; \<open>writes_left\<close> is how many
  more writes succeed. Deadlines are not modelled as time: what they do is in
  \<open>read_end\<close> and \<open>writes_left\<close>, which the theorems leave arbitrary. The deferred
  \<^verbatim>\<open>Close\<close> calls are not modelled.
\<close>

datatype io_error = EOF | ErrUnexpectedEOF | ErrTimeout | ErrClosed

record conn =
  incoming :: "string list"
  read_end :: io_error
  written :: "string list"
  writes_left :: nat

text \<open>\<^verbatim>\<open>conn.Read(buf)\<close> with \<open>len(buf) = k\<close>: at most \<open>k\<close> bytes of the segment at hand.\<close>

definition conn_Read :: "conn \<Rightarrow> nat \<Rightarrow> conn \<times> (io_error + string)" where
  "conn_Read c k =
     (case incoming c of
        [] \<Rightarrow> (c, Inl (read_end c))
      | s # ss \<Rightarrow>
          (c\<lparr>incoming := (if length s \<le> k then ss else drop k s # ss)\<rparr>, Inr (take k s)))"

fun drop_bytes :: "nat \<Rightarrow> string list \<Rightarrow> string list" where
  "drop_bytes n [] = []"
| "drop_bytes n (s # ss) =
     (if n = 0 then s # ss
      else if n < length s then drop n s # ss
      else drop_bytes (n - length s) ss)"

text \<open>\<^verbatim>\<open>io.ReadFull(conn, buf)\<close> with \<open>len(buf) = n\<close>: exactly \<open>n\<close> bytes, gathered over as
  many reads as it takes, or an error; no read at all is made for \<open>n = 0\<close>.\<close>

definition io_ReadFull :: "conn \<Rightarrow> nat \<Rightarrow> conn \<times> (io_error + string)" where
  "io_ReadFull c n =
     (let avail = concat (incoming c) in
      if n \<le> length avail then (c\<lparr>incoming := drop_bytes n (incoming c)\<rparr>, Inr (take n avail))
      else (c\<lparr>incoming := []\<rparr>,
            Inl (if read_end c = EOF \<and> avail \<noteq> [] then ErrUnexpectedEOF else read_end c)))"

definition conn_Write :: "conn \<Rightarrow> string \<Rightarrow> conn \<times> io_error option" where
  "conn_Write c b =
     (if writes_left c = 0 then (c, Some ErrClosed)
      else (c\<lparr>written := written c @ [b], writes_left := writes_left c - 1\<rparr>, None))"

section \<open>The frame codec\<close>

datatype packet_error =
    HeaderReadFailed io_error
  | PayloadReadFailed io_error
  | WriteFailed io_error

text \<open>The \<open>timeout\<close> argument only sets the read deadline, whose effect is in the
  connection's \<open>read_end\<close>.\<close>

definition readPacketWithTimeout :: "conn \<Rightarrow> nat \<Rightarrow> conn \<times> (packet_error + MySQLPacket)" where
  "readPacketWithTimeout c timeout =
     (case io_ReadFull c 4 of
        (c, Inl err) \<Rightarrow> (c, Inl (HeaderReadFailed err))
      | (c, Inr header) \<Rightarrow>
          (let packetLength = of_char (header ! 0) OR push_bit 8 (of_char (header ! 1))
                                OR push_bit 16 (of_char (header ! 2)) :: int;
               sequenceID = of_char (header ! 3) :: int
           in case io_ReadFull c (nat packetLength) of
                (c, Inl err) \<Rightarrow> (c, Inl (PayloadReadFailed err))
              | (c, Inr payload) \<Rightarrow>
                  (c, Inr \<lparr>Length = packetLength, SequenceID = sequenceID,
                           Payload = payload, FullPacket = header @ payload\<rparr>)))"

definition readPacket :: "conn \<Rightarrow> conn \<times> (packet_error + MySQLPacket)" where
  "readPacket c = readPacketWithTimeout c 0"

definition writePacket :: "conn \<Rightarrow> MySQLPacket \<Rightarrow> conn \<times> packet_error option" where
  "writePacket c packet =
     (case conn_Write c (FullPacket packet) of
        (c, Some err) \<Rightarrow> (c, Some (WriteFailed err))
      | (c, None) \<Rightarrow> (c, None))"

text \<open>
  The wire format in the words of the specification: a 4-byte header (little-endian
  24-bit length, then one sequence byte) followed by the payload.
\<close>

definition frame_header :: "int \<Rightarrow> int \<Rightarrow> string" where
  "frame_header len seq =
     [char_of (len mod 256), char_of (len div 256 mod 256), char_of (len div 65536 mod 256),
      char_of seq]"

definition encode_frame :: "int \<Rightarrow> int \<Rightarrow> string \<Rightarrow> string" where
  "encode_frame len seq payload = frame_header len seq @ payload"

text \<open>A packet as the specification's frame: the length field is the payload's size,
  length and sequence number fit their fields, and \<open>FullPacket\<close> is the wire image.\<close>

definition frame_packet :: "MySQLPacket \<Rightarrow> bool" where
  "frame_packet p =
     (Length p = int (length (Payload p)) \<and> Length p < 2 ^ 24
        \<and> 0 \<le> SequenceID p \<and> SequenceID p < 256
        \<and> FullPacket p = encode_frame (Length p) (SequenceID p) (Payload p))"


section \<open>The relay session\<close>

record world =
  dial_fails :: bool
  client :: conn
  mysql :: conn
  admin :: upstream

datatype loop_exit = ReadStopped io_error | WriteStopped io_error | Panicked

text \<open>The classification of one chunk in \<^verbatim>\<open>forwardWithUseInterception\<close>: the database
  name to provision, \<open>''''\<close> when there is none, \<open>None\<close> for a panic.\<close>

definition classify :: "CaseTables \<Rightarrow> string \<Rightarrow> string option" where
  "classify U data =
     (case isUseCommand U data of
        None \<Rightarrow> None
      | Some is_use \<Rightarrow> if is_use then extractDatabaseFromUseCommand data else Some '''')"

definition intercept :: "CaseTables \<Rightarrow> Config \<Rightarrow> string \<Rightarrow> upstream \<Rightarrow> upstream option" where
  "intercept U config data up =
     (case classify U data of
        None \<Rightarrow> None
      | Some databaseName \<Rightarrow>
          if databaseName \<noteq> '''' then
            (case ensureDatabaseExists U config databaseName up of
               (up, Some err) \<Rightarrow> Some up
             | (up, None) \<Rightarrow> Some up)
          else Some up)"

function forwardWithUseInterception ::
  "CaseTables \<Rightarrow> Config \<Rightarrow> conn \<times> conn \<times> upstream \<Rightarrow> (conn \<times> conn \<times> upstream) \<times> loop_exit" where
  "forwardWithUseInterception U config (clientConn, mysqlConn, up) =
     (case conn_Read clientConn 4096 of
        (clientConn', Inl err) \<Rightarrow> ((clientConn', mysqlConn, up), ReadStopped err)
      | (clientConn', Inr chunk) \<Rightarrow>
          if length chunk > 0 then
            (case intercept U config chunk up of
               None \<Rightarrow> ((clientConn', mysqlConn, up), Panicked)
             | Some up' \<Rightarrow>
                 (case conn_Write mysqlConn chunk of
                    (mysqlConn', Some err) \<Rightarrow> ((clientConn', mysqlConn', up'), WriteStopped err)
                  | (mysqlConn', None) \<Rightarrow>
                      forwardWithUseInterception U config (clientConn', mysqlConn', up')))
          else forwardWithUseInterception U config (clientConn', mysqlConn, up))"
  by pat_completeness auto
termination
  by (relation "measure (\<lambda>(U, config, clientConn, mysqlConn, up).
                   sum_list (map (\<lambda>s. Suc (length s)) (incoming clientConn)))")
     (auto simp: conn_Read_def split: list.splits if_splits)

declare forwardWithUseInterception.simps [simp del]

text \<open>\<^verbatim>\<open>io.Copy(dst, src)\<close>: the generic loop with its 32 KiB buffer.\<close>

function io_Copy :: "conn \<times> conn \<Rightarrow> (conn \<times> conn) \<times> loop_exit" where
  "io_Copy (dst, src) =
     (case conn_Read src 32768 of
        (src', Inl err) \<Rightarrow> ((dst, src'), ReadStopped err)
      | (src', Inr chunk) \<Rightarrow>
          if length chunk > 0 then
            (case conn_Write dst chunk of
               (dst', Some err) \<Rightarrow> ((dst', src'), WriteStopped err)
             | (dst', None) \<Rightarrow> io_Copy (dst', src'))
          else io_Copy (dst, src'))"
  by pat_completeness auto
termination
  by (relation "measure (\<lambda>(dst, src). sum_list (map (\<lambda>s. Suc (length s)) (incoming src)))")
     (auto simp: conn_Read_def split: list.splits if_splits)

declare io_Copy.simps [simp del]



datatype outcome = Failed | Closed | Crashed

text \<open>
  The relaying phase. The two copies run concurrently; the client-to-upstream one reads
  \<open>incoming\<close> of the client and writes on the upstream connection, the other reads
  \<open>incoming\<close> of the upstream and writes on the client connection, so they touch
  disjoint fields and their interleaving does not show in the result. They are run one
  after the other here. A panic in either goroutine ends the process.
\<close>

definition relay :: "CaseTables \<Rightarrow> Config \<Rightarrow> world \<Rightarrow> world \<times> outcome" where
  "relay U config w =
     (case forwardWithUseInterception U config (client w, mysql w, admin w) of
        ((c, m, up), ex) \<Rightarrow>
          (case io_Copy (c, m) of
             ((c, m), _) \<Rightarrow>
               (w\<lparr>client := c, mysql := m, admin := up\<rparr>,
                if ex = Panicked then Crashed else Closed)))"

definition okPacket :: MySQLPacket where
  "okPacket = \<lparr>Length = 0, SequenceID = 2,
                Payload = [CHR 0x00, CHR 0x00, CHR 0x00, CHR 0x02, CHR 0x00, CHR 0x00, CHR 0x00],
                FullPacket = []\<rparr>"

text \<open>\<^verbatim>\<open>handleConnection\<close> from the forwarding of the client's handshake on.\<close>

definition forward_handshake :: "CaseTables \<Rightarrow> Config \<Rightarrow> world \<Rightarrow> MySQLPacket \<Rightarrow> world \<times> outcome" where
  "forward_handshake U config w clientHandshake =
     (case writePacket (mysql w) clientHandshake of
        (m, Some err) \<Rightarrow> (w\<lparr>mysql := m\<rparr>, Failed)
      | (m, None) \<Rightarrow>
          (case readPacketWithTimeout m 30 of
             (m, Inl err) \<Rightarrow>
               (case writePacket (client w) okPacket of
                  (c, Some err) \<Rightarrow> (w\<lparr>client := c, mysql := m\<rparr>, Failed)
                | (c, None) \<Rightarrow> relay U config (w\<lparr>client := c, mysql := m\<rparr>))
           | (m, Inr serverResponse) \<Rightarrow>
               (case writePacket (client w) serverResponse of
                  (c, Some err) \<Rightarrow> (w\<lparr>client := c, mysql := m\<rparr>, Failed)
                | (c, None) \<Rightarrow>
                    (case slice (Payload serverResponse) 0
                            (min (length (Payload serverResponse)) 20) of
                       None \<Rightarrow> (w\<lparr>client := c, mysql := m\<rparr>, Crashed)
                     | Some response_hex \<Rightarrow> relay U config (w\<lparr>client := c, mysql := m\<rparr>)))))"

definition handleConnection :: "CaseTables \<Rightarrow> Config \<Rightarrow> world \<Rightarrow> world \<times> outcome" where
  "handleConnection U config w =
     (if dial_fails w then (w, Failed)
      else
        (case readPacket (mysql w) of
           (m, Inl err) \<Rightarrow> (w\<lparr>mysql := m\<rparr>, Failed)
         | (m, Inr serverGreeting) \<Rightarrow>
        (case writePacket (client w) serverGreeting of
           (c, Some err) \<Rightarrow> (w\<lparr>client := c, mysql := m\<rparr>, Failed)
         | (c, None) \<Rightarrow>
        (case readPacket c of
           (c, Inl err) \<Rightarrow> (w\<lparr>client := c, mysql := m\<rparr>, Failed)
         | (c, Inr clientHandshake) \<Rightarrow>
        (let w = w\<lparr>client := c, mysql := m\<rparr> in
         case parseDatabaseName clientHandshake of
           None \<Rightarrow> (w, Crashed)
         | Some databaseName \<Rightarrow>
             if databaseName \<noteq> '''' then
               (case ensureDatabaseExists U config databaseName (admin w) of
                  (up, Some err) \<Rightarrow> (w\<lparr>admin := up\<rparr>, Failed)
                | (up, None) \<Rightarrow> forward_handshake U config (w\<lparr>admin := up\<rparr>) clientHandshake)
             else forward_handshake U config w clientHandshake)))))"

section \<open>Example connections and sessions\<close>

text \<open>Concrete values on which the theorems below are instantiated and evaluated.\<close>

text \<open>Case tables that leave every rune above \<open>0x7F\<close> as it is.\<close>

definition plain_tables :: CaseTables where
  "plain_tables = \<lparr>UpperCase = id, LowerCase = id\<rparr>"

text \<open>An upstream on which every administrative call succeeds and no schema exists yet.\<close>

definition empty_upstream :: upstream where
  "empty_upstream = \<lparr>open_fails = False, ping_fails = False, query_fails = False,
                       exec_fails = False, schemata = [], admin_ops = []\<rparr>"

definition fresh_conn :: "string list \<Rightarrow> io_error \<Rightarrow> conn" where
  "fresh_conn segments ending =
     \<lparr>incoming = segments, read_end = ending, written = [], writes_left = 16\<rparr>"

text \<open>A one-byte greeting frame, a handshake response of user \<open>root\<close> with an empty
  password and the given trailing field, and a one-byte command frame.\<close>

definition greeting_frame :: string where
  "greeting_frame = [CHR 0x01, CHR 0x00, CHR 0x00, CHR 0x00, CHR 0x0A]"

definition handshake_payload :: "string \<Rightarrow> string" where
  "handshake_payload db = replicate 32 (CHR 0x00) @ ''root'' @ [CHR 0x00, CHR 0x00] @ db @ [CHR 0x00]"

definition handshake_frame :: "string \<Rightarrow> string" where
  "handshake_frame db = encode_frame (int (length (handshake_payload db))) 1 (handshake_payload db)"

definition ping_frame :: string where
  "ping_frame = [CHR 0x01, CHR 0x00, CHR 0x00, CHR 0x00, CHR 0x0E]"


text \<open>A session in which the client sends the given segments and the upstream the given
  ones, after which reads on the upstream connection end as stated.\<close>

definition session :: "string list \<Rightarrow> string list \<Rightarrow> io_error \<Rightarrow> world" where
  "session from_client from_upstream upstream_ending =
     \<lparr>dial_fails = False, client = fresh_conn from_client EOF,
      mysql = fresh_conn from_upstream upstream_ending, admin = empty_upstream\<rparr>"

section \<open>Verified properties\<close>

subsection \<open>The scanning loops and slices\<close>

lemma scan_nul_eq:
  "scan_nul payload p =
     Some (if p < length payload
           then p + length (takeWhile (\<lambda>b. b \<noteq> CHR 0x00) (drop p payload)) else p)"
proof (induction payload p rule: scan_nul.induct)
  case (1 payload p)
  show ?case
  proof (cases "p < length payload")
    case True
    then have d: "drop p payload = payload ! p # drop (Suc p) payload"
      by (simp add: Cons_nth_drop_Suc)
    show ?thesis
    proof (cases "payload ! p = CHR 0x00")
      case True
      with \<open>p < length payload\<close> d show ?thesis
        by (subst scan_nul.simps) (simp add: byte_at_def)
    next
      case False
      with \<open>p < length payload\<close> have "scan_nul payload p = scan_nul payload (p + 1)"
        by (subst scan_nul.simps) (simp add: byte_at_def)
      also have "\<dots> = Some (if p + 1 < length payload
          then p + 1 + length (takeWhile (\<lambda>b. b \<noteq> CHR 0x00) (drop (p + 1) payload)) else p + 1)"
        using 1 [of "payload ! p"] \<open>p < length payload\<close> False by (simp add: byte_at_def)
      finally show ?thesis using \<open>p < length payload\<close> False d by auto
    qed
  next
    case False
    then show ?thesis by (subst scan_nul.simps) simp
  qed
qed

lemma scan_nul_bounds:
  assumes "p \<le> length payload"
  shows "\<exists>q. scan_nul payload p = Some q \<and> p \<le> q \<and> q \<le> length payload"
proof -
  have "length (takeWhile (\<lambda>b. b \<noteq> CHR 0x00) (drop p payload)) \<le> length (drop p payload)"
    by (rule length_takeWhile_le)
  then show ?thesis using assms by (auto simp: scan_nul_eq)
qed

lemma slice_ok:
  "lo \<le> hi \<Longrightarrow> hi \<le> length s \<Longrightarrow> slice s lo hi = Some (take (hi - lo) (drop lo s))"
  by (simp add: slice_def)

subsection \<open>The handshake field extractor against the specification\<close>

lemma Contains_sublist: "strings_Contains s sub \<longleftrightarrow> sublist sub s"
proof (induction s)
  case Nil
  then show ?case by (cases sub) auto
next
  case (Cons a s)
  then show ?case by (cases sub) (auto simp: sublist_Cons_right)
qed

lemma Contains_byte: "strings_Contains s [c] \<longleftrightarrow> c \<in> set s"
  by (induction s) auto

lemma sublist_byte: "sublist [c] (s :: string) \<longleftrightarrow> c \<in> set s"
  using Contains_byte [of s c] Contains_sublist [of s "[c]"] by simp

lemma looks_like_database_eq: "looks_like_database name = accepted_schema_name name"
  by (auto simp: looks_like_database_def accepted_schema_name_def Contains_sublist sublist_byte)

lemma is_auth_method_eq: "is_auth_method f \<longleftrightarrow> f \<in> set known_auth_methods"
  by (auto simp: is_auth_method_def known_auth_methods_def)

lemma scan_nul_until:
  "p \<le> length payload \<Longrightarrow> scan_nul payload p = Some (p + length (until_nul (drop p payload)))"
  by (auto simp: scan_nul_eq until_nul_def)

lemma slice_until:
  assumes "p \<le> length payload"
  shows "slice payload p (p + length (until_nul (drop p payload))) = Some (until_nul (drop p payload))"
proof -
  let ?t = "until_nul (drop p payload)"
  have "length ?t \<le> length (drop p payload)"
    unfolding until_nul_def by (rule length_takeWhile_le)
  moreover have "take (length ?t) (drop p payload) = ?t"
    unfolding until_nul_def by (rule takeWhile_eq_take [symmetric])
  ultimately show ?thesis using assms by (simp add: slice_def)
qed

lemma until_nul_bound: "p + length (until_nul (drop p payload)) \<le> max p (length payload)"
proof -
  have "length (until_nul (drop p payload)) \<le> length (drop p payload)"
    unfolding until_nul_def by (rule length_takeWhile_le)
  then show ?thesis by simp
qed

lemma parse_after_auth_eq:
  assumes "nextEnd \<le> length payload"
  shows "parse_after_auth payload nextEnd =
           Some (if accepted_schema_name (until_nul (drop (nextEnd + 1) payload))
                 then until_nul (drop (nextEnd + 1) payload) else '''')"
proof (cases "nextEnd + 1 \<ge> length payload")
  case True
  then have "until_nul (drop (nextEnd + 1) payload) = []" by (simp add: until_nul_def)
  with True show ?thesis by (simp add: parse_after_auth_def accepted_schema_name_def)
next
  case False
  then have le: "nextEnd + 1 \<le> length payload" by simp
  show ?thesis
    using False scan_nul_until [OF le] slice_until [OF le]
    by (auto simp: parse_after_auth_def Let_def looks_like_database_eq accepted_schema_name_def)
qed

lemma parse_trailing_eq:
  assumes "pos < length payload"
  shows "parse_trailing payload pos =
           Some (let field = until_nul (drop pos payload);
                     candidate = (if field \<in> set known_auth_methods
                                  then until_nul (drop (length field + 1) (drop pos payload))
                                  else field)
                 in if accepted_schema_name candidate then candidate else '''')"
proof -
  let ?f = "until_nul (drop pos payload)"
  have le: "pos \<le> length payload" using assms by simp
  have b: "pos + length ?f \<le> length payload"
    using until_nul_bound [of pos payload] assms by simp
  have d: "drop (length ?f + 1) (drop pos payload) = drop (pos + length ?f + 1) payload"
    unfolding drop_drop by (rule arg_cong [where f = "\<lambda>k. drop k payload"]) simp
  show ?thesis
  proof (cases "?f = []")
    case True
    then show ?thesis
      using scan_nul_until [OF le]
      by (simp add: parse_trailing_def Let_def known_auth_methods_def accepted_schema_name_def)
  next
    case False
    then show ?thesis
      using scan_nul_until [OF le] slice_until [OF le] parse_after_auth_eq [OF b] d
      by (simp add: parse_trailing_def Let_def is_auth_method_eq looks_like_database_eq)
  qed
qed

lemma parseDatabaseName_eq_spec:
  "parseDatabaseName packet = Some (spec_schema_name (Payload packet))"
proof (cases "length (Payload packet) < 32")
  case True
  then show ?thesis by (simp add: parseDatabaseName_def spec_schema_name_def)
next
  case False
  define payload where "payload = Payload packet"
  define u where "u = until_nul (drop 32 payload)"
  from False have len: "32 \<le> length payload" by (simp add: payload_def)
  have hex: "slice payload 0 (min 64 (length payload)) = Some (take (min 64 (length payload)) payload)"
    by (simp add: slice_def)
  have s1: "scan_nul payload 32 = Some (32 + length u)"
    using scan_nul_until [OF len] by (simp add: u_def)
  have us: "slice payload 32 (32 + length u) = Some u"
    using slice_until [OF len] by (simp add: u_def)
  have au: "drop (length u + 1) (drop 32 payload) = drop (33 + length u) payload"
    unfolding drop_drop by (rule arg_cong [where f = "\<lambda>k. drop k payload"]) simp
  show ?thesis
  proof (cases "33 + length u \<ge> length payload")
    case True
    then have "drop (33 + length u) payload = []" by simp
    then show ?thesis using len hex s1 us True au
      by (simp add: parseDatabaseName_def spec_schema_name_def Let_def
            payload_def [symmetric] u_def [symmetric])
  next
    case short: False
    define n :: nat where "n = of_char (payload ! (33 + length u))"
    have hd: "hd (drop (33 + length u) payload) = payload ! (33 + length u)"
      using short by (simp add: hd_drop_conv_nth)
    have pw: "skip_password payload (33 + length u) = Some (34 + length u + n)"
      using short by (simp add: skip_password_def byte_at_def Let_def n_def)
    have tr: "drop (1 + n) (drop (33 + length u) payload) = drop (34 + length u + n) payload"
      unfolding drop_drop by (rule arg_cong [where f = "\<lambda>k. drop k payload"]) simp
    have ne: "drop (33 + length u) payload \<noteq> []" using short by simp
    show ?thesis
    proof (cases "34 + length u + n \<ge> length payload")
      case True
      then have "drop (34 + length u + n) payload = []" by simp
      then show ?thesis using len hex s1 us short au pw True ne hd tr
        by (simp add: parseDatabaseName_def spec_schema_name_def Let_def
              payload_def [symmetric] u_def [symmetric] n_def [symmetric])
    next
      case False
      then have lt: "34 + length u + n < length payload" by simp
      then have ne2: "drop (34 + length u + n) payload \<noteq> []" by simp
      show ?thesis using len hex s1 us short au pw False ne ne2 hd tr parse_trailing_eq [OF lt]
        by (simp add: parseDatabaseName_def spec_schema_name_def Let_def
              payload_def [symmetric] u_def [symmetric] n_def [symmetric])
    qed
  qed
qed

lemma until_nul_no_nul: "CHR 0x00 \<notin> set (until_nul bs)"
  unfolding until_nul_def using set_takeWhileD [of "CHR 0x00" "\<lambda>b. b \<noteq> CHR 0x00" bs] by blast

lemma until_nul_all: "CHR 0x00 \<notin> set bs \<Longrightarrow> until_nul bs = bs"
  unfolding until_nul_def by (induction bs) auto

lemma until_nul_field: "CHR 0x00 \<notin> set field \<Longrightarrow> until_nul (field @ CHR 0x00 # rest) = field"
  unfolding until_nul_def by (induction field) auto

lemma spec_schema_name_nonempty:
  assumes "spec_schema_name payload \<noteq> ''''"
  shows "accepted_schema_name (spec_schema_name payload)
       \<and> (\<exists>k. 34 \<le> k \<and> spec_schema_name payload = until_nul (drop k payload))"
proof -
  define u where "u = until_nul (drop 32 payload)"
  define au where "au = drop (length u + 1) (drop 32 payload)"
  define n :: nat where "n = of_char (hd au)"
  define tr where "tr = drop (1 + n) au"
  define f where "f = until_nul tr"
  define cand where "cand = (if f \<in> set known_auth_methods then until_nul (drop (length f + 1) tr) else f)"
  have tr_eq: "tr = drop (1 + n + (length u + 1 + 32)) payload"
    by (simp add: tr_def au_def)
  have e: "spec_schema_name payload = cand" and acc: "accepted_schema_name cand"
    using assms
    by (auto simp: spec_schema_name_def Let_def u_def au_def n_def tr_def f_def cand_def
          split: if_splits)
  have "\<exists>k. 34 \<le> k \<and> cand = until_nul (drop k payload)"
  proof (cases "f \<in> set known_auth_methods")
    case True
    then have "cand = until_nul (drop (length f + 1 + (1 + n + (length u + 1 + 32))) payload)"
      by (simp add: cand_def tr_eq)
    then show ?thesis by (intro exI [of _ "length f + 1 + (1 + n + (length u + 1 + 32))"]) simp
  next
    case False
    then have "cand = until_nul (drop (1 + n + (length u + 1 + 32)) payload)"
      by (simp add: cand_def f_def tr_eq)
    then show ?thesis by (intro exI [of _ "1 + n + (length u + 1 + 32)"]) simp
  qed
  with e acc show ?thesis by simp
qed

text \<open>
  Claim C4. For every packet, whatever its payload (truncated, empty or adversarial),
  \<open>parseDatabaseName\<close> terminates and returns a string: no index or slice expression is
  ever out of range, so the panic value \<open>None\<close> is never the result. The string is the one
  the specification's steps give. In particular it is empty when the payload is shorter
  than 32 bytes, when no zero byte terminates the username, and when the credential
  block reaches or passes the end of the frame; and a non-empty result is always a whole
  trailing field (the bytes from some offset of at least 34 up to the next zero byte or
  the end of the frame) that is not a client-attribute blob: it holds no byte \<open>0x0C\<close> and
  not the text \<open>_client_\<close>.
\<close>

theorem parseDatabaseName_total_and_cautious:
  "parseDatabaseName packet = Some (spec_schema_name (Payload packet))
   \<and> (length (Payload packet) < 32 \<longrightarrow> parseDatabaseName packet = Some '''')
   \<and> (CHR 0x00 \<notin> set (drop 32 (Payload packet)) \<longrightarrow> parseDatabaseName packet = Some '''')
   \<and> (length fixed = 32 \<and> CHR 0x00 \<notin> set username \<and> length credential \<le> of_char b
        \<and> Payload packet = fixed @ username @ CHR 0x00 # b # credential
        \<longrightarrow> parseDatabaseName packet = Some '''')
   \<and> (parseDatabaseName packet = Some name \<and> name \<noteq> '''' \<longrightarrow>
        accepted_schema_name name
        \<and> (\<exists>k. 34 \<le> k \<and> name = until_nul (drop k (Payload packet))))"
proof (intro conjI impI)
  show eq: "parseDatabaseName packet = Some (spec_schema_name (Payload packet))"
    by (rule parseDatabaseName_eq_spec)
  show "parseDatabaseName packet = Some ''''" if "length (Payload packet) < 32"
    using that by (simp add: eq spec_schema_name_def)
  show "parseDatabaseName packet = Some ''''" if "CHR 0x00 \<notin> set (drop 32 (Payload packet))"
    using that by (simp add: eq spec_schema_name_def Let_def until_nul_all)
  show "parseDatabaseName packet = Some ''''"
    if "length fixed = 32 \<and> CHR 0x00 \<notin> set username \<and> length credential \<le> of_char b
        \<and> Payload packet = fixed @ username @ CHR 0x00 # b # credential"
    using that by (simp add: eq spec_schema_name_def Let_def until_nul_field)
  assume n: "parseDatabaseName packet = Some name \<and> name \<noteq> ''''"
  then have "name = spec_schema_name (Payload packet)" "spec_schema_name (Payload packet) \<noteq> ''''"
    by (simp_all add: eq)
  with spec_schema_name_nonempty [of "Payload packet"]
  show "accepted_schema_name name"
    and "\<exists>k. 34 \<le> k \<and> name = until_nul (drop k (Payload packet))"
    by simp_all
qed

theorem parseDatabaseName_total_and_cautious_witness:
  "parseDatabaseName \<lparr>Length = 3, SequenceID = 1, Payload = ''abc'', FullPacket = []\<rparr> = Some ''''
   \<and> parseDatabaseName \<lparr>Length = 36, SequenceID = 1,
         Payload = replicate 32 (CHR 0x00) @ ''root'', FullPacket = []\<rparr> = Some ''''
   \<and> parseDatabaseName \<lparr>Length = 41, SequenceID = 1,
         Payload = replicate 32 (CHR 0x00) @ ''root'' @ CHR 0x00 # CHR 0x05 # ''abc'',
         FullPacket = []\<rparr> = Some ''''
   \<and> parseDatabaseName \<lparr>Length = 44, SequenceID = 1, Payload = handshake_payload ''svc_a'',
         FullPacket = []\<rparr> = Some ''svc_a''
   \<and> accepted_schema_name ''svc_a''"
proof -
  let ?A = "\<lparr>Length = 3, SequenceID = 1, Payload = ''abc'', FullPacket = []\<rparr>"
  let ?B = "\<lparr>Length = 36, SequenceID = 1, Payload = replicate 32 (CHR 0x00) @ ''root'',
              FullPacket = []\<rparr>"
  let ?C = "\<lparr>Length = 41, SequenceID = 1,
              Payload = replicate 32 (CHR 0x00) @ ''root'' @ CHR 0x00 # CHR 0x05 # ''abc'',
              FullPacket = []\<rparr>"
  let ?D = "\<lparr>Length = 44, SequenceID = 1, Payload = handshake_payload ''svc_a'',
              FullPacket = []\<rparr>"
  have a: "length (Payload ?A) < 32" by simp
  have b: "CHR 0x00 \<notin> set (drop 32 (Payload ?B))" by simp
  have c: "length (replicate 32 (CHR 0x00)) = 32 \<and> CHR 0x00 \<notin> set ''root''
        \<and> length ''abc'' \<le> of_char (CHR 0x05)
        \<and> Payload ?C = replicate 32 (CHR 0x00) @ ''root'' @ CHR 0x00 # CHR 0x05 # ''abc''"
    by simp
  have s: "spec_schema_name (handshake_payload ''svc_a'') = ''svc_a''" by code_simp
  have d: "parseDatabaseName ?D = Some ''svc_a'' \<and> ''svc_a'' \<noteq> ''''"
    using parseDatabaseName_total_and_cautious [of ?D] s by simp
  from a parseDatabaseName_total_and_cautious [of ?A]
  have 1: "parseDatabaseName ?A = Some ''''" by blast
  from b parseDatabaseName_total_and_cautious [of ?B]
  have 2: "parseDatabaseName ?B = Some ''''" by blast
  from c parseDatabaseName_total_and_cautious [of ?C "replicate 32 (CHR 0x00)" "''root''" "''abc''" "CHR 0x05"]
  have 3: "parseDatabaseName ?C = Some ''''" by blast
  from d parseDatabaseName_total_and_cautious [of ?D _ _ _ _ "''svc_a''"]
  have 4: "accepted_schema_name ''svc_a''" by blast
  from 1 2 3 d 4 show ?thesis by blast
qed

subsection \<open>Case mapping of text that is not ASCII\<close>

lemma EncodeRune_ascii:
  assumes "list_all isASCII (utf8_EncodeRune r)"
  shows "r < 0x80"
proof (rule ccontr)
  assume "\<not> r < 0x80"
  then have r: "0x80 \<le> r" by simp
  have m: "\<And>x::nat. 128 \<le> x \<Longrightarrow> x < 256 \<Longrightarrow> 128 \<le> x mod 256" by simp
  consider "r < 0x800" | "0x800 \<le> r" "0x10FFFF < r \<or> (0xD800 \<le> r \<and> r \<le> 0xDFFF)"
    | "0x800 \<le> r" "\<not> (0x10FFFF < r \<or> (0xD800 \<le> r \<and> r \<le> 0xDFFF))" "r < 0x10000"
    | "0x10000 \<le> r" "r \<le> 0x10FFFF"
    by linarith
  then show False
  proof cases
    case 1
    then have "192 + r div 64 < 256" by simp
    then have "128 \<le> (192 + r div 64) mod 256" by (intro m) simp_all
    with assms r 1 show False
      by (simp add: utf8_EncodeRune_def isASCII_def RuneSelf_def)
  next
    case 2
    with assms r show False
      by (auto simp add: utf8_EncodeRune_def isASCII_def RuneSelf_def)
  next
    case 3
    then have "224 + r div 4096 < 256" by simp
    then have "128 \<le> (224 + r div 4096) mod 256" by (intro m) simp_all
    with assms r 3 show False
      by (auto simp add: utf8_EncodeRune_def isASCII_def RuneSelf_def)
  next
    case 4
    then have "240 + r div 262144 < 256" by simp
    then have "128 \<le> (240 + r div 262144) mod 256" by (intro m) simp_all
    with assms r 4 show False
      by (auto simp add: utf8_EncodeRune_def isASCII_def RuneSelf_def)
  qed
qed

lemma EncodeRune_length_ascii: "r < 0x80 \<Longrightarrow> length (utf8_EncodeRune r) = 1"
  by (simp add: utf8_EncodeRune_def)

lemma DecodeRune_cases:
  "utf8_DecodeRune (b # t) = (of_char b, 1) \<and> isASCII b
     \<or> utf8_DecodeRune (b # t) = (RuneError, 1) \<and> \<not> isASCII b
     \<or> 1 < snd (utf8_DecodeRune (b # t)) \<and> snd (utf8_DecodeRune (b # t)) \<le> Suc (length t)"
  by (simp add: utf8_DecodeRune_def Let_def isASCII_def split: list.split)

lemma DecodeRune_width:
  "s \<noteq> [] \<Longrightarrow> 0 < snd (utf8_DecodeRune s) \<and> snd (utf8_DecodeRune s) \<le> length s"
  using DecodeRune_cases [of "hd s" "tl s"] by (cases s) auto

lemma DecodeRune_width1:
  "s \<noteq> [] \<Longrightarrow> snd (utf8_DecodeRune s) = 1 \<Longrightarrow> \<not> isASCII (hd s) \<Longrightarrow> fst (utf8_DecodeRune s) = RuneError"
  using DecodeRune_cases [of "hd s" "tl s"] by (cases s) auto

lemma Map_ascii_length:
  "list_all isASCII (strings_Map f s) \<Longrightarrow> length (strings_Map f s) \<le> length s"
proof (induction f s rule: strings_Map.induct)
  case (1 f s)
  show ?case
  proof (cases "s = []")
    case True
    then show ?thesis by (subst strings_Map.simps) simp
  next
    case False
    let ?r = "fst (utf8_DecodeRune s)" and ?w = "snd (utf8_DecodeRune s)"
    have eq: "strings_Map f s = utf8_EncodeRune (f ?r) @ strings_Map f (drop ?w s)"
      using False by (subst strings_Map.simps) simp
    with "1.prems" have a: "list_all isASCII (utf8_EncodeRune (f ?r))"
      and b: "list_all isASCII (strings_Map f (drop ?w s))" by simp_all
    from a have "length (utf8_EncodeRune (f ?r)) = 1"
      by (intro EncodeRune_length_ascii EncodeRune_ascii)
    moreover have "length (strings_Map f (drop ?w s)) \<le> length (drop ?w s)"
      using "1.IH" False b by simp
    moreover have "0 < ?w" "?w \<le> length s" using DecodeRune_width [OF False] by simp_all
    ultimately show ?thesis using eq by simp
  qed
qed

lemma Map_ascii_same_length:
  "RuneSelf \<le> f RuneError \<Longrightarrow> list_all isASCII (strings_Map f s)
     \<Longrightarrow> length s \<le> length (strings_Map f s) \<Longrightarrow> list_all isASCII s"
proof (induction f s rule: strings_Map.induct)
  case (1 f s)
  show ?case
  proof (cases "s = []")
    case True
    then show ?thesis by simp
  next
    case False
    let ?r = "fst (utf8_DecodeRune s)" and ?w = "snd (utf8_DecodeRune s)"
    have eq: "strings_Map f s = utf8_EncodeRune (f ?r) @ strings_Map f (drop ?w s)"
      using False by (subst strings_Map.simps) simp
    with "1.prems"(2) have a: "list_all isASCII (utf8_EncodeRune (f ?r))"
      and b: "list_all isASCII (strings_Map f (drop ?w s))" by simp_all
    from a have fr: "f ?r < 0x80" by (rule EncodeRune_ascii)
    then have l1: "length (utf8_EncodeRune (f ?r)) = 1" by (rule EncodeRune_length_ascii)
    have le: "length (strings_Map f (drop ?w s)) \<le> length s - ?w"
      using Map_ascii_length [OF b] by simp
    have w: "0 < ?w" "?w \<le> length s" using DecodeRune_width [OF False] by simp_all
    from "1.prems"(3) eq l1 le w have w1: "?w = 1" by simp
    have "isASCII (hd s)"
    proof (rule ccontr)
      assume "\<not> isASCII (hd s)"
      then have "?r = RuneError" using DecodeRune_width1 [OF False w1] by simp
      with fr "1.prems"(1) show False by (simp add: RuneSelf_def)
    qed
    moreover have "list_all isASCII (drop ?w s)"
      using "1.IH" [OF False "1.prems"(1) b] "1.prems"(3) eq l1 w1 by simp
    ultimately show ?thesis using False w1 by (cases s) simp_all
  qed
qed


lemma ToUpper_eq_ascii:
  assumes "RuneSelf \<le> UpperCase U RuneError" "list_all isASCII t" "length t = length s"
  shows "strings_ToUpper U s = t \<longleftrightarrow> map upper_byte s = t"
proof (cases "list_all isASCII s")
  case True
  then show ?thesis by (simp add: strings_ToUpper_def)
next
  case False
  have up: "RuneSelf \<le> unicode_ToUpper U RuneError"
    using assms(1) by (simp add: unicode_ToUpper_def RuneError_def RuneSelf_def)
  have "strings_Map (unicode_ToUpper U) s \<noteq> t"
  proof
    assume e: "strings_Map (unicode_ToUpper U) s = t"
    then have "list_all isASCII s"
      using Map_ascii_same_length [of "unicode_ToUpper U" s] up assms(2,3) by simp
    with False show False by simp
  qed
  moreover have "map upper_byte s \<noteq> t"
  proof
    assume e: "map upper_byte s = t"
    from False obtain c where c: "c \<in> set s" "\<not> isASCII c" by (auto simp: list_all_iff)
    then have "upper_byte c = c" by (auto simp: upper_byte_def between_def isASCII_def RuneSelf_def)
    with c have "c \<in> set (map upper_byte s)" by force
    with e assms(2) c show False by (auto simp: list_all_iff)
  qed
  ultimately show ?thesis using False by (simp add: strings_ToUpper_def)
qed

subsection \<open>The in-session command classifier\<close>

lemma scan_name_eq:
  "scan_name data e =
     Some (if e < length data
           then e + length (takeWhile (\<lambda>b. b \<noteq> CHR 0x00 \<and> b \<noteq> CHR '';'' \<and> b \<noteq> CHR '' '') (drop e data))
           else e)"
proof (induction data e rule: scan_name.induct)
  case (1 data e)
  let ?P = "\<lambda>b. b \<noteq> CHR 0x00 \<and> b \<noteq> CHR '';'' \<and> b \<noteq> CHR '' ''"
  show ?case
  proof (cases "e < length data")
    case True
    then have d: "drop e data = data ! e # drop (Suc e) data"
      by (simp add: Cons_nth_drop_Suc)
    show ?thesis
    proof (cases "?P (data ! e)")
      case False
      with True d show ?thesis
        by (subst scan_name.simps) (auto simp add: byte_at_def)
    next
      case P: True
      with True have "scan_name data e = scan_name data (e + 1)"
        by (subst scan_name.simps) (simp add: byte_at_def)
      also have "\<dots> = Some (if e + 1 < length data
          then e + 1 + length (takeWhile ?P (drop (e + 1) data)) else e + 1)"
        using 1 [of "data ! e"] True P by (simp add: byte_at_def)
      finally show ?thesis using True P d by auto
    qed
  next
    case False
    then show ?thesis by (subst scan_name.simps) simp
  qed
qed

lemma extractDatabaseFromUseCommand_eq:
  "extractDatabaseFromUseCommand data =
     Some (takeWhile (\<lambda>b. b \<noteq> CHR 0x00 \<and> b \<noteq> CHR '';'' \<and> b \<noteq> CHR '' '') (drop 8 data))"
proof -
  let ?P = "\<lambda>b. b \<noteq> CHR 0x00 \<and> b \<noteq> CHR '';'' \<and> b \<noteq> CHR '' ''"
  let ?tw = "takeWhile ?P (drop 8 data)"
  have le: "length ?tw \<le> length data - 8"
    using length_takeWhile_le [of ?P "drop 8 data"] by simp
  have tk: "take (length ?tw) (drop 8 data) = ?tw"
    by (rule takeWhile_eq_take [symmetric])
  show ?thesis
  proof (cases "length data \<le> 8")
    case True
    then show ?thesis
      by (auto simp: extractDatabaseFromUseCommand_def scan_name_eq Let_def)
  next
    case False
    then show ?thesis using le tk
      by (auto simp: extractDatabaseFromUseCommand_def scan_name_eq Let_def slice_def)
  qed
qed

text \<open>
  Claim C10. For every input, the name \<open>extractDatabaseFromUseCommand\<close> returns is a
  contiguous run of the input's bytes starting at offset 8 (the empty run included) and
  holds no NUL byte, no \<open>;\<close> and no space, so no delimiter reaches the validation of
  a name taken from a USE command.
\<close>

theorem extracted_name_has_no_delimiter:
  "\<exists>name n. extractDatabaseFromUseCommand data = Some name \<and> name = take n (drop 8 data)
      \<and> CHR 0x00 \<notin> set name \<and> CHR '';'' \<notin> set name \<and> CHR '' '' \<notin> set name"
proof -
  let ?P = "\<lambda>b. b \<noteq> CHR 0x00 \<and> b \<noteq> CHR '';'' \<and> b \<noteq> CHR '' ''"
  let ?tw = "takeWhile ?P (drop 8 data)"
  have "?tw = take (length ?tw) (drop 8 data)" by (rule takeWhile_eq_take)
  moreover have "\<And>b. b \<in> set ?tw \<Longrightarrow> ?P b" by (rule set_takeWhileD [THEN conjunct2])
  then have "CHR 0x00 \<notin> set ?tw \<and> CHR '';'' \<notin> set ?tw \<and> CHR '' '' \<notin> set ?tw" by blast
  ultimately show ?thesis using extractDatabaseFromUseCommand_eq [of data] by blast
qed

lemma isUseCommand_eq:
  assumes "RuneSelf \<le> UpperCase U RuneError"
  shows "isUseCommand U data
           = Some (8 \<le> length data \<and> map upper_byte (take 4 (drop 4 data)) = ''USE '')"
proof (cases "8 \<le> length data")
  case True
  have "list_all isASCII ''USE ''" by (simp add: isASCII_def RuneSelf_def)
  then have "strings_ToUpper U (take 4 (drop 4 data)) = ''USE ''
               \<longleftrightarrow> map upper_byte (take 4 (drop 4 data)) = ''USE ''"
    using True by (intro ToUpper_eq_ascii [OF assms]) simp_all
  then show ?thesis using True by (simp add: isUseCommand_def slice_def)
next
  case False
  then show ?thesis by (simp add: isUseCommand_def)
qed

text \<open>
  Claim C6. Given that the Unicode tables do not send the replacement rune \<open>U+FFFD\<close> to
  an ASCII character, \<open>isUseCommand\<close> holds of a chunk exactly when the chunk has the
  four bytes at offsets 4 to 7 and they equal \<open>USE \<close> up to the case of ASCII letters;
  \<open>extractDatabaseFromUseCommand\<close> returns the bytes from offset 8 up to the first
  NUL, \<open>;\<close> or space, or to the end of the chunk. After any 4-byte header, the command
  text \<open>USE orders;\<close> and \<open>use orders \<close> yield \<open>orders\<close>, and \<open>SELECT 1\<close> yields no name.
\<close>

theorem use_command_classifier:
  assumes "RuneSelf \<le> UpperCase U RuneError"
  shows "isUseCommand U data
           = Some (8 \<le> length data \<and> map upper_byte (take 4 (drop 4 data)) = ''USE '')
       \<and> extractDatabaseFromUseCommand data
           = Some (takeWhile (\<lambda>b. b \<noteq> CHR 0x00 \<and> b \<noteq> CHR '';'' \<and> b \<noteq> CHR '' '') (drop 8 data))
       \<and> (length header = 4 \<longrightarrow>
            classify U (header @ ''USE orders;'') = Some ''orders''
          \<and> classify U (header @ ''use orders '') = Some ''orders''
          \<and> classify U (header @ ''SELECT 1'') = Some '''')"
proof -
  have ex: "length header = 4 \<Longrightarrow> classify U (header @ ''USE orders;'') = Some ''orders''
          \<and> classify U (header @ ''use orders '') = Some ''orders''
          \<and> classify U (header @ ''SELECT 1'') = Some ''''"
    by (simp add: classify_def isUseCommand_eq [OF assms] extractDatabaseFromUseCommand_eq
          upper_byte_def between_def char_of_eq_iff)
  show ?thesis
    using isUseCommand_eq [OF assms] extractDatabaseFromUseCommand_eq ex by blast
qed

theorem use_command_classifier_witness:
  "RuneSelf \<le> UpperCase \<lparr>UpperCase = id, LowerCase = id\<rparr> RuneError
   \<and> isUseCommand \<lparr>UpperCase = id, LowerCase = id\<rparr>
        ([CHR 0x0B, CHR 0x00, CHR 0x00, CHR 0x00] @ ''Use orders;'') = Some True
   \<and> extractDatabaseFromUseCommand ([CHR 0x0B, CHR 0x00, CHR 0x00, CHR 0x00] @ ''Use orders;'')
        = Some ''orders''
   \<and> length [CHR 0x0B, CHR 0x00, CHR 0x00, CHR 0x00] = 4
   \<and> classify \<lparr>UpperCase = id, LowerCase = id\<rparr>
        ([CHR 0x0B, CHR 0x00, CHR 0x00, CHR 0x00] @ ''SELECT 1'') = Some ''''"
proof -
  have h: "RuneSelf \<le> UpperCase \<lparr>UpperCase = id, LowerCase = id\<rparr> RuneError"
    by (simp add: RuneSelf_def RuneError_def)
  show ?thesis
    using h use_command_classifier [OF h, of "[CHR 0x0B, CHR 0x00, CHR 0x00, CHR 0x00] @ ''Use orders;''"
        "[CHR 0x0B, CHR 0x00, CHR 0x00, CHR 0x00]"]
    by (simp add: upper_byte_def between_def char_of_eq_iff)
qed

subsection \<open>Authentication-method tags in the handshake\<close>

lemma scan_nul_field:
  assumes "CHR 0x00 \<notin> set field" "rest = [] \<or> hd rest = CHR 0x00"
  shows "scan_nul (pre @ field @ rest) (length pre) = Some (length pre + length field)"
proof -
  have tw: "takeWhile (\<lambda>b. b \<noteq> CHR 0x00) (field @ rest) = field"
  proof -
    have "takeWhile (\<lambda>b. b \<noteq> CHR 0x00) rest = []"
      using assms(2) by (cases rest) auto
    moreover have "\<And>x. x \<in> set field \<Longrightarrow> x \<noteq> CHR 0x00" using assms(1) by auto
    ultimately show ?thesis by (simp add: takeWhile_append2)
  qed
  show ?thesis
  proof (cases "field @ rest = []")
    case True
    then show ?thesis by (simp add: scan_nul_eq)
  next
    case False
    then have "length pre < length (pre @ field @ rest)" by (cases "field @ rest") auto
    then show ?thesis using tw by (simp add: scan_nul_eq)
  qed
qed

lemma slice_field:
  "slice (pre @ field @ rest) (length pre) (length pre + length field) = Some field"
  by (simp add: slice_def)

lemma byte_at_field: "byte_at (pre @ b # rest) (length pre) = Some b"
  by (simp add: byte_at_def)

lemma auth_method_no_nul: "is_auth_method auth \<Longrightarrow> CHR 0x00 \<notin> set auth \<and> auth \<noteq> []"
  by (auto simp: is_auth_method_def)

text \<open>
  Claim C5. Take a handshake payload made of 32 fixed bytes, a NUL-terminated username,
  a length-prefixed credential block, a trailing field that is one of the three known
  authentication-method names with its terminator, and then a field \<open>db\<close> (terminated
  by NUL or by the end of the payload). \<open>parseDatabaseName\<close> skips the method name and
  takes \<open>db\<close> as the candidate: it returns \<open>db\<close> when \<open>db\<close> passes the candidate test and
  the empty string otherwise. With an empty credential block, \<open>mysql_native_password\<close>
  and \<open>myapp_db\<close>, the result is \<open>myapp_db\<close>.
\<close>

theorem auth_method_tag_is_skipped:
  assumes fixed: "length fixed = 32"
    and user: "CHR 0x00 \<notin> set username"
    and cred: "length credential < 256"
    and auth: "is_auth_method auth"
    and db: "CHR 0x00 \<notin> set db"
    and rest: "rest = [] \<or> hd rest = CHR 0x00"
    and payload: "Payload packet =
        fixed @ username @ [CHR 0x00] @ [char_of (length credential)] @ credential
          @ auth @ [CHR 0x00] @ db @ rest"
  shows "parseDatabaseName packet = Some (if looks_like_database db then db else '''')"
proof -
  define payload where "payload = Payload packet"
  define r1 where "r1 = [CHR 0x00] @ [char_of (length credential)] @ credential
          @ auth @ [CHR 0x00] @ db @ rest"
  define p2 where "p2 = fixed @ username @ [CHR 0x00]"
  define r2 where "r2 = credential @ auth @ [CHR 0x00] @ db @ rest"
  define p3 where "p3 = p2 @ [char_of (length credential)] @ credential"
  define r3 where "r3 = [CHR 0x00] @ db @ rest"
  define p4 where "p4 = p3 @ auth @ [CHR 0x00]"
  have e1: "payload = fixed @ username @ r1"
    and e2: "payload = p2 @ char_of (length credential) # r2"
    and e3: "payload = p3 @ auth @ r3"
    and e4: "payload = p4 @ db @ rest"
    using payload by (simp_all add: payload_def r1_def p2_def r2_def p3_def r3_def p4_def)
  have len: "\<not> length payload < 32" using fixed by (simp add: e1)
  have hex: "slice payload 0 (min 64 (length payload)) = Some (take (min 64 (length payload)) payload)"
    by (simp add: slice_def)
  have s1: "scan_nul payload 32 = Some (32 + length username)"
    using scan_nul_field [of username r1 fixed] user fixed by (simp add: e1 r1_def)
  have u: "slice payload 32 (32 + length username) = Some username"
    using slice_field [of fixed username r1] fixed by (simp add: e1)
  have lp2: "33 + length username = length p2" using fixed by (simp add: p2_def)
  have pw: "skip_password payload (33 + length username) = Some (length p3)"
    unfolding lp2
  proof -
    have "byte_at payload (length p2) = Some (char_of (length credential))"
      unfolding e2 by (rule byte_at_field)
    moreover have "length p2 < length payload" by (simp add: e2)
    moreover have "(of_char (char_of (length credential)) :: nat) = length credential"
      using cred by simp
    ultimately show "skip_password payload (length p2) = Some (length p3)"
      by (simp add: skip_password_def Let_def p3_def)
  qed
  have l2: "33 + length username < length payload"
    unfolding lp2 by (simp add: e2)
  have l3: "length p3 < length payload"
    using auth_method_no_nul [OF auth] by (cases auth) (simp_all add: e3)
  have s3: "scan_nul payload (length p3) = Some (length p3 + length auth)"
    unfolding e3 using auth_method_no_nul [OF auth] by (intro scan_nul_field) (simp_all add: r3_def)
  have a: "slice payload (length p3) (length p3 + length auth) = Some auth"
    unfolding e3 by (rule slice_field)
  have lp4: "Suc (length p3 + length auth) = length p4" by (simp add: p4_def)
  have pt: "parse_trailing payload (length p3) = parse_after_auth payload (length p3 + length auth)"
    using s3 a auth auth_method_no_nul [OF auth] by (simp add: parse_trailing_def Let_def)
  have s4: "scan_nul payload (length p4) = Some (length p4 + length db)"
    unfolding e4 using db rest by (rule scan_nul_field)
  have d: "slice payload (length p4) (length p4 + length db) = Some db"
    unfolding e4 by (rule slice_field)
  have pa: "parse_after_auth payload (length p3 + length auth)
              = Some (if looks_like_database db then db else '''')"
  proof (cases "length p4 \<ge> length payload")
    case True
    then have "db = []" by (simp add: e4)
    then show ?thesis using True
      by (simp add: parse_after_auth_def lp4 looks_like_database_def)
  next
    case False
    then show ?thesis using s4 d
      by (auto simp add: parse_after_auth_def Let_def lp4 looks_like_database_def)
  qed
  show ?thesis
    using len hex s1 u l2 pw l3 pt pa
    by (simp add: parseDatabaseName_def Let_def payload_def [symmetric])
qed

theorem auth_method_tag_is_skipped_witness:
  "length (replicate 32 (CHR 0x00)) = 32 \<and> CHR 0x00 \<notin> set ''root'' \<and> length '''' < 256
   \<and> is_auth_method ''mysql_native_password'' \<and> CHR 0x00 \<notin> set ''myapp_db''
   \<and> hd [CHR 0x00] = CHR 0x00
   \<and> parseDatabaseName \<lparr>Length = 68, SequenceID = 1,
        Payload = replicate 32 (CHR 0x00) @ ''root'' @ [CHR 0x00] @ [char_of (length '''')] @ ''''
          @ ''mysql_native_password'' @ [CHR 0x00] @ ''myapp_db'' @ [CHR 0x00],
        FullPacket = []\<rparr> = Some ''myapp_db''"
proof -
  have h1: "length (replicate 32 (CHR 0x00)) = 32" by simp
  have h2: "CHR 0x00 \<notin> set ''root''" by simp
  have h3: "length '''' < 256" by simp
  have h4: "is_auth_method ''mysql_native_password''" by (simp add: is_auth_method_def)
  have h5: "CHR 0x00 \<notin> set ''myapp_db''" by simp
  have h6: "[CHR 0x00] = [] \<or> hd [CHR 0x00] = CHR 0x00" by simp
  have l: "looks_like_database ''myapp_db''" by (simp add: looks_like_database_def)
  show ?thesis
    using h1 h2 h3 h4 h5 l
      auth_method_tag_is_skipped [OF h1 h2 h3 h4 h5 h6,
        of "\<lparr>Length = 68, SequenceID = 1,
        Payload = replicate 32 (CHR 0x00) @ ''root'' @ [CHR 0x00] @ [char_of (length '''')] @ ''''
          @ ''mysql_native_password'' @ [CHR 0x00] @ ''myapp_db'' @ [CHR 0x00],
        FullPacket = []\<rparr>"]
    by simp
qed

subsection \<open>Validation of schema names\<close>

lemma name_byte_ascii: "name_byte c \<Longrightarrow> isASCII c"
  by (auto simp: name_byte_def between_def isASCII_def RuneSelf_def)

lemma ToLower_valid_name:
  "validPattern_MatchString name \<Longrightarrow> strings_ToLower U name = map lower_byte name"
  by (auto simp: validPattern_MatchString_def strings_ToLower_def list_all_iff name_byte_ascii)

text \<open>
  Claim C2. For every name, \<open>validateDatabaseName\<close> accepts it exactly when it matches
  \<^verbatim>\<open>^[a-zA-Z0-9_-]+$\<close> and its lower-cased form contains none of \<open>information_schema\<close>,
  \<open>mysql\<close>, \<open>performance_schema\<close>, \<open>sys\<close>. For every other name \<open>ensureDatabaseExists\<close>
  fails with \<open>InvalidName\<close> and returns the upstream as it was: no administrative call,
  not even the opening of the connection, is made.
\<close>

theorem validation_condition:
  "(validateDatabaseName U name = None \<longleftrightarrow>
      validPattern_MatchString name
      \<and> \<not> strings_Contains (map lower_byte name) ''information_schema''
      \<and> \<not> strings_Contains (map lower_byte name) ''mysql''
      \<and> \<not> strings_Contains (map lower_byte name) ''performance_schema''
      \<and> \<not> strings_Contains (map lower_byte name) ''sys'')
   \<and> (validateDatabaseName U name \<noteq> None \<longrightarrow>
        (\<exists>err. ensureDatabaseExists U config name up = (up, Some (InvalidName err))))"
proof -
  have "validateDatabaseName U name = None \<longleftrightarrow>
      validPattern_MatchString name
      \<and> \<not> strings_Contains (map lower_byte name) ''information_schema''
      \<and> \<not> strings_Contains (map lower_byte name) ''mysql''
      \<and> \<not> strings_Contains (map lower_byte name) ''performance_schema''
      \<and> \<not> strings_Contains (map lower_byte name) ''sys''"
  proof (cases "validPattern_MatchString name")
    case True
    then have "name \<noteq> []" by (simp add: validPattern_MatchString_def)
    then show ?thesis using True
      by (simp add: validateDatabaseName_def ToLower_valid_name [OF True])
  next
    case False
    then show ?thesis by (simp add: validateDatabaseName_def)
  qed
  moreover have "validateDatabaseName U name \<noteq> None \<longrightarrow>
        (\<exists>err. ensureDatabaseExists U config name up = (up, Some (InvalidName err)))"
    by (auto simp: ensureDatabaseExists_def)
  ultimately show ?thesis by blast
qed

theorem validation_condition_witness:
  "validateDatabaseName \<lparr>UpperCase = id, LowerCase = id\<rparr> ''Information_Schema'' \<noteq> None
   \<and> validPattern_MatchString ''Information_Schema''
   \<and> strings_Contains (map lower_byte ''Information_Schema'') ''information_schema''
   \<and> (\<exists>err. ensureDatabaseExists \<lparr>UpperCase = id, LowerCase = id\<rparr> defaultConfig ''Information_Schema''
          \<lparr>open_fails = False, ping_fails = False, query_fails = False, exec_fails = False,
             schemata = [], admin_ops = []\<rparr>
        = (\<lparr>open_fails = False, ping_fails = False, query_fails = False, exec_fails = False,
             schemata = [], admin_ops = []\<rparr>, Some (InvalidName err)))"
proof -
  have c: "strings_Contains (map lower_byte ''Information_Schema'') ''information_schema''"
    by code_simp
  have p: "validPattern_MatchString ''Information_Schema''"
    by (simp add: validPattern_MatchString_def name_byte_def between_def)
  show ?thesis
    using c p validation_condition [of "\<lparr>UpperCase = id, LowerCase = id\<rparr>" "''Information_Schema''"
      defaultConfig "\<lparr>open_fails = False, ping_fails = False, query_fails = False,
             exec_fails = False, schemata = [], admin_ops = []\<rparr>"]
    by blast
qed

subsection \<open>The frame codec\<close>

lemma le24_sum:
  fixes a b c :: int
  assumes "0 \<le> a" "a < 256" "0 \<le> b" "b < 256"
  shows "a OR push_bit 8 b OR push_bit 16 c = a + 256 * b + 65536 * c"
proof -
  have a: "take_bit 8 a = a" and b: "take_bit 8 b = b"
    using assms by (simp_all add: take_bit_int_eq_self)
  have "push_bit 8 b OR push_bit 16 c = push_bit 8 (b OR push_bit 8 c)"
    by (simp add: push_bit_or push_bit_push_bit)
  then have "a OR push_bit 8 b OR push_bit 16 c = concat_bit 8 a (concat_bit 8 b c)"
    by (simp only: concat_bit_def a b)
  also have "\<dots> = a + 256 * b + 65536 * c"
    by (simp add: concat_bit_eq a b push_bit_eq_mult)
  finally show ?thesis .
qed


lemma split24:
  fixes len :: int
  assumes "0 \<le> len" "len < 2 ^ 24"
  shows "len mod 256 + 256 * (len div 256 mod 256) + 65536 * (len div 65536 mod 256) = len"
proof -
  define q where "q = len div 256"
  have q: "len div 65536 = q div 256"
    unfolding q_def using zdiv_zmult2_eq [of 256 len 256] by simp
  have "q < 65536" using assms unfolding q_def by simp
  moreover have "0 \<le> q" using assms unfolding q_def by simp
  ultimately have "q div 256 < 256" "0 \<le> q div 256" by simp_all
  then have m: "q div 256 mod 256 = q div 256" by simp
  have 1: "len = 256 * q + len mod 256" unfolding q_def by simp
  have 2: "q = 256 * (q div 256) + q mod 256" by simp
  show ?thesis
    unfolding q m q_def [symmetric] using 1 2 by linarith
qed

lemma header_decode:
  fixes len :: int
  assumes "0 \<le> len" "len < 2 ^ 24"
  shows "of_char (frame_header len seq ! 0) OR push_bit 8 (of_char (frame_header len seq ! 1))
           OR push_bit 16 (of_char (frame_header len seq ! 2)) = len"
proof -
  have r: "0 \<le> len mod 256" "len mod 256 < 256" "0 \<le> len div 256 mod 256" "len div 256 mod 256 < 256"
    by simp_all
  have "of_char (frame_header len seq ! 0) = len mod 256"
    "of_char (frame_header len seq ! 1) = len div 256 mod 256"
    "of_char (frame_header len seq ! 2) = len div 65536 mod 256"
    by (simp_all add: frame_header_def)
  then show ?thesis
    using le24_sum [OF r, of "len div 65536 mod 256"] split24 [OF assms] by simp
qed

lemma concat_drop_bytes: "concat (drop_bytes n ss) = drop n (concat ss)"
  by (induction ss arbitrary: n) auto

lemma io_ReadFull_enough:
  assumes "concat (incoming c) = bs @ rest" "length bs = n"
  shows "io_ReadFull c n = (c\<lparr>incoming := drop_bytes n (incoming c)\<rparr>, Inr bs)"
  using assms by (simp add: io_ReadFull_def Let_def)

lemma length_frame_header: "length (frame_header len seq) = 4"
  by (simp add: frame_header_def)

lemma readPacket_encode_frame:
  assumes len: "0 \<le> len" "len < 2 ^ 24" and seq: "0 \<le> seq" "seq < 256"
    and payload: "int (length payload) = len"
    and stream: "concat (incoming c) = encode_frame len seq payload @ rest"
  shows "readPacketWithTimeout c timeout =
           (c\<lparr>incoming := drop_bytes (length payload) (drop_bytes 4 (incoming c))\<rparr>,
            Inr \<lparr>Length = len, SequenceID = seq, Payload = payload,
                  FullPacket = encode_frame len seq payload\<rparr>)"
proof -
  let ?h = "frame_header len seq"
  have 1: "io_ReadFull c 4 = (c\<lparr>incoming := drop_bytes 4 (incoming c)\<rparr>, Inr ?h)"
    using stream by (intro io_ReadFull_enough [where rest = "payload @ rest"])
      (simp_all add: encode_frame_def length_frame_header)
  have 2: "io_ReadFull (c\<lparr>incoming := drop_bytes 4 (incoming c)\<rparr>) (nat len)
             = (c\<lparr>incoming := drop_bytes (length payload) (drop_bytes 4 (incoming c))\<rparr>, Inr payload)"
  proof -
    have "concat (incoming (c\<lparr>incoming := drop_bytes 4 (incoming c)\<rparr>)) = payload @ rest"
      using stream by (simp add: concat_drop_bytes encode_frame_def length_frame_header)
    moreover have "length payload = nat len" using payload by simp
    ultimately show ?thesis
      using io_ReadFull_enough [of "c\<lparr>incoming := drop_bytes 4 (incoming c)\<rparr>" payload rest "nat len"]
      by simp
  qed
  have 3: "(of_char (?h ! 3) :: int) = seq" using seq by (simp add: frame_header_def)
  show ?thesis
    using header_decode [OF len, of seq]
    by (simp add: readPacketWithTimeout_def 1 2 3 encode_frame_def)
qed

text \<open>
  Claim C9. Let \<open>p\<close> be a frame: its length field is the size of its payload, length
  and sequence number fit in 24 and 8 bits, and its wire image is the 4-byte header
  (little-endian length, sequence byte) followed by the payload. When \<open>writePacket\<close>
  sends \<open>p\<close> on a connection and a reader receives what was written, whatever follows
  it, \<open>readPacket\<close> returns exactly \<open>p\<close> and leaves what follows unread.
\<close>

theorem frame_roundtrip:
  assumes frame: "frame_packet p"
    and sent: "writePacket d p = (d', None)"
    and received: "incoming c = drop (length (written d)) (written d') @ later"
  shows "snd (readPacket c) = Inr p \<and> concat (incoming (fst (readPacket c))) = concat later"
proof -
  from sent have w: "written d' = written d @ [FullPacket p]"
    by (auto simp: writePacket_def conn_Write_def split: if_splits)
  with received have inc: "incoming c = FullPacket p # later" by simp
  from frame have f: "0 \<le> Length p" "Length p < 2 ^ 24" "0 \<le> SequenceID p" "SequenceID p < 256"
      "int (length (Payload p)) = Length p"
      "FullPacket p = encode_frame (Length p) (SequenceID p) (Payload p)"
    by (simp_all add: frame_packet_def)
  have s: "concat (incoming c) = encode_frame (Length p) (SequenceID p) (Payload p) @ concat later"
    using inc f(6) by simp
  have "p = \<lparr>Length = Length p, SequenceID = SequenceID p, Payload = Payload p,
              FullPacket = encode_frame (Length p) (SequenceID p) (Payload p)\<rparr>"
    using f(6) by simp
  then show ?thesis
    using readPacket_encode_frame [OF f(1-5) s, of 0] s
    by (simp add: readPacket_def concat_drop_bytes encode_frame_def length_frame_header)
qed





theorem frame_roundtrip_witness:
  "frame_packet \<lparr>Length = 1, SequenceID = 0, Payload = [CHR 0x0A],
                  FullPacket = [CHR 0x01, CHR 0x00, CHR 0x00, CHR 0x00, CHR 0x0A]\<rparr>
   \<and> snd (readPacket \<lparr>incoming = [[CHR 0x01, CHR 0x00, CHR 0x00, CHR 0x00, CHR 0x0A], ''tail''],
                       read_end = EOF, written = [], writes_left = 0\<rparr>)
       = Inr \<lparr>Length = 1, SequenceID = 0, Payload = [CHR 0x0A],
               FullPacket = [CHR 0x01, CHR 0x00, CHR 0x00, CHR 0x00, CHR 0x0A]\<rparr>"
proof -
  let ?p = "\<lparr>Length = 1, SequenceID = 0, Payload = [CHR 0x0A],
              FullPacket = [CHR 0x01, CHR 0x00, CHR 0x00, CHR 0x00, CHR 0x0A]\<rparr>"
  let ?d = "\<lparr>incoming = [], read_end = EOF, written = [], writes_left = 1\<rparr>"
  let ?d' = "\<lparr>incoming = [], read_end = EOF,
               written = [[CHR 0x01, CHR 0x00, CHR 0x00, CHR 0x00, CHR 0x0A]], writes_left = 0\<rparr>"
  let ?c = "\<lparr>incoming = [[CHR 0x01, CHR 0x00, CHR 0x00, CHR 0x00, CHR 0x0A], ''tail''],
              read_end = EOF, written = [], writes_left = 0\<rparr>"
  have h1: "frame_packet ?p"
    by code_simp
  have h2: "writePacket ?d ?p = (?d', None)"
    by (simp add: writePacket_def conn_Write_def)
  have h3: "incoming ?c = drop (length (written ?d)) (written ?d') @ [''tail'']"
    by simp
  show ?thesis
    using h1 frame_roundtrip [OF h1 h2 h3] by simp
qed


lemma readPacket_written:
  "readPacketWithTimeout c timeout = (c', r) \<Longrightarrow> written c' = written c"
  by (auto simp: readPacketWithTimeout_def io_ReadFull_def Let_def
        split: prod.splits sum.splits if_splits)

subsection \<open>The handshake gate\<close>

text \<open>
  Claim C1. In every session that gets as far as reading the client's handshake
  response: if \<open>parseDatabaseName\<close> returns a non-empty name and \<open>ensureDatabaseExists\<close>
  fails for it, \<open>handleConnection\<close> ends in \<open>Failed\<close> and nothing has been written on the
  upstream connection, so the handshake response never reaches the server.
\<close>

theorem gate_failure_aborts_handshake:
  assumes dial: "\<not> dial_fails w"
    and greeting: "readPacket (mysql w) = (m, Inr serverGreeting)"
    and relayed: "writePacket (client w) serverGreeting = (c, None)"
    and handshake: "readPacket c = (c', Inr clientHandshake)"
    and name: "parseDatabaseName clientHandshake = Some databaseName" "databaseName \<noteq> ''''"
    and gate: "ensureDatabaseExists U config databaseName (admin w) = (up, Some err)"
  shows "snd (handleConnection U config w) = Failed
       \<and> written (mysql (fst (handleConnection U config w))) = written (mysql w)"
proof -
  have "handleConnection U config w = (w\<lparr>client := c', mysql := m, admin := up\<rparr>, Failed)"
    using assms by (simp add: handleConnection_def Let_def)
  moreover have "written m = written (mysql w)"
    using greeting readPacket_written by (simp add: readPacket_def)
  ultimately show ?thesis by simp
qed

theorem gate_failure_aborts_handshake_witness:
  "parseDatabaseName \<lparr>Length = 57, SequenceID = 1,
                        Payload = handshake_payload ''information_schema'',
                        FullPacket = handshake_frame ''information_schema''\<rparr>
     = Some ''information_schema''
   \<and> ensureDatabaseExists plain_tables defaultConfig ''information_schema'' empty_upstream
       = (empty_upstream, Some (InvalidName NotAllowed))
   \<and> snd (handleConnection plain_tables defaultConfig
            (session [handshake_frame ''information_schema''] [greeting_frame] EOF)) = Failed
   \<and> written (mysql (fst (handleConnection plain_tables defaultConfig
            (session [handshake_frame ''information_schema''] [greeting_frame] EOF)))) = []"
proof -
  let ?w = "session [handshake_frame ''information_schema''] [greeting_frame] EOF"
  let ?g = "\<lparr>Length = 1, SequenceID = 0, Payload = [CHR 0x0A], FullPacket = greeting_frame\<rparr>"
  let ?m = "\<lparr>incoming = [], read_end = EOF, written = [], writes_left = 16\<rparr>"
  let ?c = "\<lparr>incoming = [handshake_frame ''information_schema''], read_end = EOF,
              written = [greeting_frame], writes_left = 15\<rparr>"
  let ?c' = "\<lparr>incoming = [], read_end = EOF, written = [greeting_frame], writes_left = 15\<rparr>"
  let ?h = "\<lparr>Length = 57, SequenceID = 1, Payload = handshake_payload ''information_schema'',
              FullPacket = handshake_frame ''information_schema''\<rparr>"
  have h1: "\<not> dial_fails ?w" by (simp add: session_def)
  have h2: "readPacket (mysql ?w) = (?m, Inr ?g)" by code_simp
  have h3: "writePacket (client ?w) ?g = (?c, None)" by code_simp
  have h4: "readPacket ?c = (?c', Inr ?h)" by code_simp
  have h5: "parseDatabaseName ?h = Some ''information_schema''" by code_simp
  have h6: "''information_schema'' \<noteq> ''''" by simp
  have h7: "ensureDatabaseExists plain_tables defaultConfig ''information_schema'' (admin ?w)
              = (empty_upstream, Some (InvalidName NotAllowed))" by code_simp
  have a: "admin ?w = empty_upstream" and b: "written (mysql ?w) = []"
    by (simp_all add: session_def fresh_conn_def)
  show ?thesis
    using h5 h7 gate_failure_aborts_handshake [OF h1 h2 h3 h4 h5 h6 h7]
    by (simp only: a b)
qed

subsection \<open>The reply to the forwarded handshake\<close>

text \<open>
  Claim C3 fails on the code. When the read of the upstream's reply to the forwarded
  handshake fails (by a timeout or otherwise), \<open>handleConnection\<close> writes \<open>okPacket\<close> to the
  client; but \<open>writePacket\<close> sends the \<open>FullPacket\<close> field, which \<open>okPacket\<close> leaves empty.
  So when the client connection accepts the write it carries no byte at all, and the
  session goes on to the relaying phase; when it does not, the session ends in \<open>Failed\<close>.
  Either way the client receives nothing.
\<close>

theorem synthesized_ok_packet_is_empty:
  assumes forwarded: "writePacket (mysql w) clientHandshake = (m, None)"
    and no_reply: "readPacketWithTimeout m 30 = (m', Inl err)"
  shows "FullPacket okPacket = ''''
       \<and> (case writePacket (client w) okPacket of
            (c, None) \<Rightarrow>
              forward_handshake U config w clientHandshake
                = relay U config (w\<lparr>client := c, mysql := m'\<rparr>)
              \<and> written c = written (client w) @ ['''']
          | (c, Some e) \<Rightarrow>
              forward_handshake U config w clientHandshake
                = (w\<lparr>client := c, mysql := m'\<rparr>, Failed)
              \<and> written c = written (client w))"
proof -
  obtain c r where wr: "writePacket (client w) okPacket = (c, r)"
    by (cases "writePacket (client w) okPacket")
  show ?thesis
  proof (cases r)
    case None
    have "written c = written (client w) @ ['''']"
      using wr None
      by (auto simp: writePacket_def conn_Write_def okPacket_def split: if_splits)
    then show ?thesis
      using assms wr None by (simp add: forward_handshake_def) (simp add: okPacket_def)
  next
    case (Some e)
    have "written c = written (client w)"
      using wr Some
      by (auto simp: writePacket_def conn_Write_def okPacket_def split: if_splits)
    then show ?thesis
      using assms wr Some by (simp add: forward_handshake_def) (simp add: okPacket_def)
  qed
qed

theorem synthesized_ok_packet_is_empty_witness:
  "readPacketWithTimeout
      \<lparr>incoming = [], read_end = ErrTimeout, written = [handshake_frame ''''], writes_left = 15\<rparr> 30
     = (\<lparr>incoming = [], read_end = ErrTimeout, written = [handshake_frame ''''], writes_left = 15\<rparr>,
        Inl (HeaderReadFailed ErrTimeout))
   \<and> writePacket \<lparr>incoming = [], read_end = EOF, written = [greeting_frame], writes_left = 15\<rparr>
        okPacket
     = (\<lparr>incoming = [], read_end = EOF, written = [greeting_frame, ''''], writes_left = 14\<rparr>, None)
   \<and> forward_handshake plain_tables defaultConfig
        \<lparr>dial_fails = False,
          client = \<lparr>incoming = [], read_end = EOF, written = [greeting_frame], writes_left = 15\<rparr>,
          mysql = \<lparr>incoming = [], read_end = ErrTimeout, written = [], writes_left = 16\<rparr>,
          admin = empty_upstream\<rparr>
        \<lparr>Length = 39, SequenceID = 1, Payload = handshake_payload '''',
          FullPacket = handshake_frame ''''\<rparr>
     = relay plain_tables defaultConfig
        \<lparr>dial_fails = False,
          client = \<lparr>incoming = [], read_end = EOF, written = [greeting_frame, ''''],
                     writes_left = 14\<rparr>,
          mysql = \<lparr>incoming = [], read_end = ErrTimeout, written = [handshake_frame ''''],
                    writes_left = 15\<rparr>,
          admin = empty_upstream\<rparr>"
proof -
  let ?cl = "\<lparr>incoming = [], read_end = EOF, written = [greeting_frame], writes_left = 15\<rparr>"
  let ?my = "\<lparr>incoming = [], read_end = ErrTimeout, written = [], writes_left = 16\<rparr>"
  let ?w = "\<lparr>dial_fails = False, client = ?cl, mysql = ?my, admin = empty_upstream\<rparr>"
  let ?h = "\<lparr>Length = 39, SequenceID = 1, Payload = handshake_payload '''',
              FullPacket = handshake_frame ''''\<rparr>"
  let ?m = "\<lparr>incoming = [], read_end = ErrTimeout, written = [handshake_frame ''''],
              writes_left = 15\<rparr>"
  let ?c = "\<lparr>incoming = [], read_end = EOF, written = [greeting_frame, ''''], writes_left = 14\<rparr>"
  have h1: "writePacket (mysql ?w) ?h = (?m, None)"
    by (simp add: writePacket_def conn_Write_def)
  have h2: "readPacketWithTimeout ?m 30 = (?m, Inl (HeaderReadFailed ErrTimeout))"
    by (simp add: readPacketWithTimeout_def io_ReadFull_def)
  have h3: "writePacket (client ?w) okPacket = (?c, None)"
    by (simp add: writePacket_def conn_Write_def okPacket_def)
  show ?thesis
    using h2 h3 synthesized_ok_packet_is_empty [OF h1 h2, of plain_tables defaultConfig]
    by simp
qed

subsection \<open>The relaying phase\<close>

lemma conn_Read_Inr:
  assumes "conn_Read c k = (c', Inr chunk)"
  shows "concat (incoming c) = chunk @ concat (incoming c') \<and> length chunk \<le> k
           \<and> written c' = written c \<and> writes_left c' = writes_left c"
  using assms by (auto simp: conn_Read_def split: list.splits if_splits)

lemma conn_Write_None:
  "conn_Write c b = (c', None) \<Longrightarrow> written c' = written c @ [b] \<and> incoming c' = incoming c"
  by (auto simp: conn_Write_def split: if_splits)

lemma conn_Write_Some: "conn_Write c b = (c', Some e) \<Longrightarrow> c' = c"
  by (auto simp: conn_Write_def split: if_splits)

lemma forward_writes:
  "forwardWithUseInterception U config st = (st', ex) \<Longrightarrow>
     \<exists>ws. written (fst (snd st')) = written (fst (snd st)) @ ws
        \<and> prefix (concat ws) (concat (incoming (fst st)))
        \<and> list_all (\<lambda>w. w \<noteq> [] \<and> length w \<le> 4096) ws"
proof (induction U config st arbitrary: st' ex rule: forwardWithUseInterception.induct)
  case (1 U config clientConn mysqlConn up)
  obtain cc1 r where rd: "conn_Read clientConn 4096 = (cc1, r)"
    by (cases "conn_Read clientConn 4096")
  show ?case
  proof (cases r)
    case (Inl e)
    with rd "1.prems" have "st' = (cc1, mysqlConn, up)"
      by (simp add: forwardWithUseInterception.simps)
    then show ?thesis by (intro exI [of _ "[]"]) simp
  next
    case (Inr chunk)
    from rd Inr have cr: "concat (incoming clientConn) = chunk @ concat (incoming cc1)"
      "length chunk \<le> 4096"
      using conn_Read_Inr by blast+
    show ?thesis
    proof (cases "0 < length chunk")
      case False
      with rd Inr "1.prems"
      have "forwardWithUseInterception U config (cc1, mysqlConn, up) = (st', ex)"
        by (simp add: forwardWithUseInterception.simps)
      from "1.IH"(2) [OF rd [symmetric] Inr False this] cr False show ?thesis by simp
    next
      case True
      show ?thesis
      proof (cases "intercept U config chunk up")
        case None
        with rd Inr True "1.prems" have "st' = (cc1, mysqlConn, up)"
          by (simp add: forwardWithUseInterception.simps)
        then show ?thesis by (intro exI [of _ "[]"]) simp
      next
        case (Some up1)
        obtain mc1 wr where wr: "conn_Write mysqlConn chunk = (mc1, wr)"
          by (cases "conn_Write mysqlConn chunk")
        show ?thesis
        proof (cases wr)
          case (Some e)
          with rd Inr True \<open>intercept U config chunk up = Some up1\<close> wr "1.prems"
          have "st' = (cc1, mc1, up1)"
            by (simp add: forwardWithUseInterception.simps)
          moreover have "mc1 = mysqlConn" using wr Some conn_Write_Some by blast
          ultimately show ?thesis by (intro exI [of _ "[]"]) simp
        next
          case None
          with rd Inr True \<open>intercept U config chunk up = Some up1\<close> wr "1.prems"
          have "forwardWithUseInterception U config (cc1, mc1, up1) = (st', ex)"
            by (simp add: forwardWithUseInterception.simps)
          from "1.IH"(1) [OF rd [symmetric] Inr True \<open>intercept U config chunk up = Some up1\<close>
              wr [symmetric] None this]
          obtain ws where ws: "written (fst (snd st')) = written mc1 @ ws"
            "prefix (concat ws) (concat (incoming cc1))"
            "list_all (\<lambda>w. w \<noteq> [] \<and> length w \<le> 4096) ws"
            by auto
          have "written mc1 = written mysqlConn @ [chunk]"
            using wr None conn_Write_None by blast
          with ws cr True show ?thesis
            by (intro exI [of _ "chunk # ws"]) simp
        qed
      qed
    qed
  qed
qed

text \<open>
  Claim C7. In the relaying phase, when a chunk read from the client is classified as a
  USE command with a non-empty name and \<open>ensureDatabaseExists\<close> fails for that name, the
  failure changes nothing in what follows: the chunk itself is written to the upstream
  connection, and the loop goes on with the next read unless that write fails. When the
  upstream connection still accepts a write, the chunk is in the log of what the session
  wrote upstream, right after what had been written before.
\<close>

theorem use_gate_failure_is_swallowed:
  assumes read: "conn_Read clientConn 4096 = (clientConn', Inr chunk)" "0 < length chunk"
    and use: "isUseCommand U chunk = Some True"
    and name: "extractDatabaseFromUseCommand chunk = Some databaseName" "databaseName \<noteq> ''''"
    and gate: "ensureDatabaseExists U config databaseName up = (up', Some err)"
  shows "forwardWithUseInterception U config (clientConn, mysqlConn, up) =
           (case conn_Write mysqlConn chunk of
              (mysqlConn', None) \<Rightarrow>
                forwardWithUseInterception U config (clientConn', mysqlConn', up')
            | (mysqlConn', Some e) \<Rightarrow> ((clientConn', mysqlConn', up'), WriteStopped e))
       \<and> (0 < writes_left mysqlConn \<longrightarrow>
            prefix (written mysqlConn @ [chunk])
              (written (fst (snd (fst (forwardWithUseInterception U config
                                         (clientConn, mysqlConn, up)))))))"
proof -
  have i: "intercept U config chunk up = Some up'"
    using use name gate by (simp add: intercept_def classify_def)
  have step: "forwardWithUseInterception U config (clientConn, mysqlConn, up) =
           (case conn_Write mysqlConn chunk of
              (mysqlConn', None) \<Rightarrow>
                forwardWithUseInterception U config (clientConn', mysqlConn', up')
            | (mysqlConn', Some e) \<Rightarrow> ((clientConn', mysqlConn', up'), WriteStopped e))"
    using read i by (subst forwardWithUseInterception.simps) simp
  have "prefix (written mysqlConn @ [chunk])
              (written (fst (snd (fst (forwardWithUseInterception U config
                                         (clientConn, mysqlConn, up))))))"
    if "0 < writes_left mysqlConn"
  proof -
    define m1 where "m1 = mysqlConn\<lparr>written := written mysqlConn @ [chunk],
                                   writes_left := writes_left mysqlConn - 1\<rparr>"
    have w: "conn_Write mysqlConn chunk = (m1, None)"
      using that by (simp add: conn_Write_def m1_def)
    have wm: "written m1 = written mysqlConn @ [chunk]" by (simp add: m1_def)
    obtain st' ex where r: "forwardWithUseInterception U config (clientConn', m1, up') = (st', ex)"
      by (cases "forwardWithUseInterception U config (clientConn', m1, up')")
    from forward_writes [OF r] obtain ws where "written (fst (snd st')) = written m1 @ ws"
      by auto
    then show ?thesis unfolding step w by (simp add: r wm)
  qed
  with step show ?thesis by blast
qed

theorem use_gate_failure_is_swallowed_witness:
  "isUseCommand plain_tables ([CHR 0x0B, CHR 0x00, CHR 0x00, CHR 0x00] @ ''USE mysql;'') = Some True
   \<and> ensureDatabaseExists plain_tables defaultConfig ''mysql'' empty_upstream
       = (empty_upstream, Some (InvalidName NotAllowed))
   \<and> prefix [[CHR 0x0B, CHR 0x00, CHR 0x00, CHR 0x00] @ ''USE mysql;'']
        (written (fst (snd (fst (forwardWithUseInterception plain_tables defaultConfig
           (fresh_conn [[CHR 0x0B, CHR 0x00, CHR 0x00, CHR 0x00] @ ''USE mysql;''] EOF,
            fresh_conn [] EOF, empty_upstream))))))"
proof -
  let ?chunk = "[CHR 0x0B, CHR 0x00, CHR 0x00, CHR 0x00] @ ''USE mysql;''"
  have h1: "conn_Read (fresh_conn [?chunk] EOF) 4096 = (fresh_conn [] EOF, Inr ?chunk)"
    by (simp add: conn_Read_def fresh_conn_def)
  have h2: "0 < length ?chunk" by simp
  have h3: "isUseCommand plain_tables ?chunk = Some True" by code_simp
  have h4: "extractDatabaseFromUseCommand ?chunk = Some ''mysql''" by code_simp
  have h5: "''mysql'' \<noteq> ''''" by simp
  have h6: "ensureDatabaseExists plain_tables defaultConfig ''mysql'' empty_upstream
              = (empty_upstream, Some (InvalidName NotAllowed))" by code_simp
  have w: "0 < writes_left (fresh_conn [] EOF)" "written (fresh_conn [] EOF) = []"
    by (simp_all add: fresh_conn_def)
  have "prefix (written (fresh_conn [] EOF) @ [?chunk])
          (written (fst (snd (fst (forwardWithUseInterception plain_tables defaultConfig
             (fresh_conn [?chunk] EOF, fresh_conn [] EOF, empty_upstream))))))"
    using use_gate_failure_is_swallowed [OF h1 h2 h3 h4 h5 h6, of "fresh_conn [] EOF"] w(1)
    by blast
  then have p: "prefix [?chunk]
          (written (fst (snd (fst (forwardWithUseInterception plain_tables defaultConfig
             (fresh_conn [?chunk] EOF, fresh_conn [] EOF, empty_upstream))))))"
    by (simp only: w(2) append_Nil)
  show ?thesis using h3 h6 p by blast
qed










end
